theory Spec2Isabelle
  imports Main
begin

section \<open>Strings\<close>

text \<open>
  A JavaScript string is modelled as a \<^typ>\<open>string\<close>, the list of the bytes of its UTF-8
  encoding. Every character the program looks at (\<open>/\<close>, and the delimiters of the URL
  parser) is ASCII, and the URL parser percent-encodes a non-ASCII code point byte by byte
  of its UTF-8 encoding, so nothing below depends on more than that.
\<close>

text \<open>
  \<open>String.prototype.split(sep)\<close> for a one-character separator: the pieces between the
  separators, empty pieces kept; the empty string gives the one-element array \<open>[""]\<close>.
  The result is never the empty array, so the first branch of the \<open>case\<close> is never taken.
\<close>

fun js_split :: "char \<Rightarrow> string \<Rightarrow> string list" where
  "js_split sep [] = [[]]"
| "js_split sep (c # cs) =
     (if c = sep then [] # js_split sep cs
      else (case js_split sep cs of
              [] \<Rightarrow> [[c]]
            | piece # pieces \<Rightarrow> (c # piece) # pieces))"

text \<open>\<open>Array.prototype.join(sep)\<close> on an array of strings.\<close>

fun js_join :: "string \<Rightarrow> string list \<Rightarrow> string" where
  "js_join sep [] = []"
| "js_join sep [x] = x"
| "js_join sep (x # y # ys) = x @ sep @ js_join sep (y # ys)"

section \<open>The URL parser on \<open>https://hostname/...\<close>\<close>

text \<open>
  \<open>parse\<close> hands the string \<open>`https://hostname/${this.referenceValue}`\<close> to
  \<open>URLPattern.exec\<close> (types.ts, line 40), which first parses it as a URL. The parser is the
  one of the URL Standard; it is modelled here for inputs that start with
  \<open>https://hostname/\<close>, the only ones the program builds. On them the scheme, authority
  and host states consume \<open>https://hostname\<close>, the path start state consumes the \<open>/\<close>
  after it, and the path state runs on what follows.
\<close>

text \<open>Before the state machine runs, leading and trailing C0 controls and spaces are
  stripped, and every ASCII tab and newline is removed.\<close>

definition c0_control_or_space :: "char \<Rightarrow> bool" where
  "c0_control_or_space c = ((of_char c :: nat) < 32 \<or> c = CHR 0x20)"

definition ascii_tab_or_newline :: "char \<Rightarrow> bool" where
  "ascii_tab_or_newline c = (c = CHR 0x09 \<or> c = CHR 0x0A \<or> c = CHR 0x0D)"

definition strip_c0_control_or_space :: "string \<Rightarrow> string" where
  "strip_c0_control_or_space s =
     rev (dropWhile c0_control_or_space (rev (dropWhile c0_control_or_space s)))"

definition remove_tab_or_newline :: "string \<Rightarrow> string" where
  "remove_tab_or_newline s = filter (\<lambda>c. \<not> ascii_tab_or_newline c) s"

text \<open>
  The percent-encode sets. The C0 control set holds the C0 controls and everything above
  \<open>~\<close>; the query set adds space, \<open>"\<close>, \<open>#\<close>, \<open><\<close>, \<open>>\<close>; the path set adds \<open>?\<close>, \<open>^\<close>,
  the backquote, \<open>{\<close> and \<open>}\<close>.
\<close>

definition c0_control_percent_encode_set :: "char \<Rightarrow> bool" where
  "c0_control_percent_encode_set c = ((of_char c :: nat) < 32 \<or> (of_char c :: nat) > 126)"

definition query_percent_encode_set :: "char \<Rightarrow> bool" where
  "query_percent_encode_set c =
     (c0_control_percent_encode_set c \<or>
      c \<in> {CHR 0x20, CHR 0x22, CHR 0x23, CHR 0x3C, CHR 0x3E})"

definition path_percent_encode_set :: "char \<Rightarrow> bool" where
  "path_percent_encode_set c =
     (query_percent_encode_set c \<or>
      c \<in> {CHR 0x3F, CHR 0x5E, CHR 0x60, CHR 0x7B, CHR 0x7D})"

definition hex_digit :: "nat \<Rightarrow> char" where
  "hex_digit n = ''0123456789ABCDEF'' ! n"

definition percent_encode :: "char \<Rightarrow> string" where
  "percent_encode c =
     [CHR ''%'', hex_digit ((of_char c :: nat) div 16), hex_digit ((of_char c :: nat) mod 16)]"

definition utf8_percent_encode :: "(char \<Rightarrow> bool) \<Rightarrow> char \<Rightarrow> string" where
  "utf8_percent_encode encode_set c = (if encode_set c then percent_encode c else [c])"

text \<open>
  A single-dot segment is \<open>.\<close> or \<open>%2e\<close>, a double-dot segment is \<open>..\<close> with either dot
  possibly written \<open>%2e\<close>; the comparison ignores ASCII case, which only the \<open>e\<close> has.
\<close>

definition single_dot_segment :: "string \<Rightarrow> bool" where
  "single_dot_segment buffer = (buffer \<in> set [''.'', ''%2e'', ''%2E''])"

definition double_dot_segment :: "string \<Rightarrow> bool" where
  "double_dot_segment buffer =
     (buffer \<in> set [''..'', ''.%2e'', ''.%2E'', ''%2e.'', ''%2E.'',
                       ''%2e%2e'', ''%2e%2E'', ''%2E%2e'', ''%2E%2E''])"

text \<open>Shortening the path of a URL whose scheme is not \<open>file\<close> removes its last segment,
  if there is one.\<close>

definition shorten_path :: "string list \<Rightarrow> string list" where
  "shorten_path path = butlast path"

text \<open>
  The path state. It reads one character at a time, collecting the current segment in
  \<open>buffer\<close>. A \<open>/\<close> or, the scheme being special, a \<open>\\<close> ends a segment; the end of the
  input, a \<open>?\<close> (the query follows) or a \<open>#\<close> (the fragment follows) ends the path.
\<close>

definition path_segment_end :: "string list \<Rightarrow> string \<Rightarrow> string list" where
  "path_segment_end path buffer =
     (if double_dot_segment buffer then shorten_path path
      else if single_dot_segment buffer then path
      else path @ [buffer])"

definition path_end :: "string list \<Rightarrow> string \<Rightarrow> string list" where
  "path_end path buffer =
     (if double_dot_segment buffer then shorten_path path @ [[]]
      else if single_dot_segment buffer then path @ [[]]
      else path @ [buffer])"

fun path_state :: "string \<Rightarrow> string list \<Rightarrow> string \<Rightarrow> string list" where
  "path_state [] path buffer = path_end path buffer"
| "path_state (c # cs) path buffer =
     (if c = CHR ''?'' \<or> c = CHR ''#'' then path_end path buffer
      else if c = CHR ''/'' \<or> c = CHR 0x5C then path_state cs (path_segment_end path buffer) []
      else path_state cs path (buffer @ utf8_percent_encode path_percent_encode_set c))"

text \<open>The path serializer: every segment preceded by \<open>/\<close>.\<close>

definition serialize_path :: "string list \<Rightarrow> string" where
  "serialize_path path = concat (map (\<lambda>segment. CHR ''/'' # segment) path)"

text \<open>
  The pathname of \<open>new URL(input)\<close>. \<open>None\<close> stands for an input outside the modelled
  domain; the input of the program is always inside it.
\<close>

definition url_pathname :: "string \<Rightarrow> string option" where
  "url_pathname input =
     (let s = remove_tab_or_newline (strip_c0_control_or_space input)
      in if take 17 s = ''https://hostname/''
         then Some (serialize_path (path_state (drop 17 s) [] []))
         else None)"

section \<open>The URL pattern\<close>

text \<open>
  \<open>new URLPattern({ pathname: ... })\<close> leaves every other component a wildcard, which
  matches whatever the parsed URL has there (none of them can hold a line terminator after
  serialization). The pathname pattern is compiled to a list of parts: fixed text, and
  named groups that match one segment, \<open>(?:/([^/]+?))\<close>, or, with the modifier \<open>*\<close>, any
  number of segments, \<open>(?:/((?:[^/]+?)(?:/(?:[^/]+?))*))?\<close>. The match is anchored at both
  ends.
\<close>

datatype part =
    FixedText string
  | SegmentGroup string
  | SegmentGroupStar string

text \<open>\<open>/projects/:project_id/databases/:database_id/documents/:document_path*\<close>\<close>

definition pattern :: "part list" where
  "pattern =
     [FixedText ''/projects'', SegmentGroup ''project_id'',
      FixedText ''/databases'', SegmentGroup ''database_id'',
      FixedText ''/documents'', SegmentGroupStar ''document_path'']"

text \<open>The groups of a match: the value of a group that did not take part is undefined.\<close>

type_synonym groups = "(string \<times> string option) list"

text \<open>
  The matcher. A one-segment group takes the characters up to the next \<open>/\<close>: the group
  cannot hold a \<open>/\<close>, and what follows it in the pattern is the end or text that starts with
  \<open>/\<close>, so no other split can match. A repeated group is the last part of the pattern; it
  either takes no part (the pathname ends there) or takes everything to the end, which must
  be non-empty segments.
\<close>

fun match_parts :: "part list \<Rightarrow> string \<Rightarrow> groups option" where
  "match_parts [] s = (if s = [] then Some [] else None)"
| "match_parts (FixedText t # ps) s =
     (if take (length t) s = t then match_parts ps (drop (length t) s) else None)"
| "match_parts (SegmentGroup name # ps) s =
     (case s of
        [] \<Rightarrow> None
      | c # rest \<Rightarrow>
          if c = CHR ''/'' \<and> takeWhile (\<lambda>x. x \<noteq> CHR ''/'') rest \<noteq> []
          then map_option (\<lambda>g. (name, Some (takeWhile (\<lambda>x. x \<noteq> CHR ''/'') rest)) # g)
                 (match_parts ps (dropWhile (\<lambda>x. x \<noteq> CHR ''/'') rest))
          else None)"
| "match_parts [SegmentGroupStar name] s =
     (case s of
        [] \<Rightarrow> Some [(name, None)]
      | c # rest \<Rightarrow>
          if c = CHR ''/'' \<and> [] \<notin> set (js_split (CHR ''/'') rest)
          then Some [(name, Some rest)]
          else None)"
| "match_parts (SegmentGroupStar name # p # ps) s = None"

text \<open>
  The class is the one of the package \<open>urlpattern-polyfill\<close> (types.ts, line 1). Its
  \<open>exec\<close> takes the components of the parsed URL and canonicalizes each of them once more
  before it matches; the pathname, by parsing it as a URL relative to the base
  \<open>https://example.com\<close> and taking the pathname of the result (after putting \<open>/-\<close> in front
  of a pathname that does not start with \<open>/\<close>, and dropping it again). Where the string
  starts with \<open>/\<close> and goes on with a character other than \<open>/\<close> and \<open>\\\<close>, the parser keeps
  the host of the base and the path state reads what follows the first \<open>/\<close>. Where it goes on
  with \<open>/\<close> or \<open>\\\<close>, the parser reads a host instead; the host parser is not modelled, and the
  pathname that comes out there, \<open>None\<close> when the URL constructor throws, is the parameter
  \<open>scheme_relative\<close> of \<open>exec\<close> and of everything that calls it. A string that does not start
  with \<open>/\<close> never gets here.
\<close>

type_synonym scheme_relative = "string \<Rightarrow> string option"

definition relative_url_pathname :: "scheme_relative \<Rightarrow> string \<Rightarrow> string option" where
  "relative_url_pathname scheme_relative input =
     (case remove_tab_or_newline (strip_c0_control_or_space input) of
        [] \<Rightarrow> None
      | c # s \<Rightarrow>
          if c \<noteq> CHR ''/'' then None
          else if take 1 s = [CHR ''/''] \<or> take 1 s = [CHR 0x5C] then scheme_relative (c # s)
          else Some (serialize_path (path_state s [] [])))"

definition canonicalizePathname :: "scheme_relative \<Rightarrow> string \<Rightarrow> string option" where
  "canonicalizePathname scheme_relative pathname =
     (if pathname = [] then Some pathname
      else if hd pathname = CHR ''/'' then relative_url_pathname scheme_relative pathname
      else map_option (drop 2) (relative_url_pathname scheme_relative (''/-'' @ pathname)))"

text \<open>The pathname that the pattern is matched against.\<close>

definition input_pathname :: "scheme_relative \<Rightarrow> string \<Rightarrow> string option" where
  "input_pathname scheme_relative input =
     (case url_pathname input of
        None \<Rightarrow> None
      | Some pathname \<Rightarrow> canonicalizePathname scheme_relative pathname)"

text \<open>
  The other components of the pattern are wildcards and match whatever the URL has there, so
  \<open>exec\<close> succeeds exactly when the pathname matches.
\<close>

definition exec :: "scheme_relative \<Rightarrow> part list \<Rightarrow> string \<Rightarrow> groups option" where
  "exec scheme_relative pat input =
     (case input_pathname scheme_relative input of
        None \<Rightarrow> None
      | Some pathname \<Rightarrow> match_parts pat pathname)"

text \<open>\<open>result.pathname.groups[name]\<close>: undefined for a group that took no part.\<close>

definition group :: "groups \<Rightarrow> string \<Rightarrow> string option" where
  "group g name = (case map_of g name of Some (Some v) \<Rightarrow> Some v | _ \<Rightarrow> None)"

section \<open>LiteralDocumentReference\<close>

record LiteralDocumentReference =
  referenceValue :: string

text \<open>The constructor copies the field of its argument.\<close>

definition constructor :: "string \<Rightarrow> LiteralDocumentReference" where
  "constructor value = \<lparr> referenceValue = value \<rparr>"

text \<open>An \<open>Error\<close> carries its message.\<close>

datatype error = Error string

record parse_result =
  res_project_id :: string
  res_database_id :: string
  res_document_path :: string

text \<open>
  \<open>parse\<close>: four places throw, each with the same message. \<open>!x\<close> holds of undefined and of
  the empty string.
\<close>

definition parse ::
  "scheme_relative \<Rightarrow> 'a LiteralDocumentReference_scheme \<Rightarrow> error + parse_result" where
  "parse scheme_relative this =
     (case exec scheme_relative pattern (''https://hostname/'' @ referenceValue this) of
        None \<Rightarrow> Inl (Error ''Invalid document path. Path does not match pattern.'')
      | Some result \<Rightarrow>
          (case group result ''project_id'' of
             None \<Rightarrow> Inl (Error ''Invalid document path. Path does not match pattern.'')
           | Some project_id \<Rightarrow>
               if project_id = []
               then Inl (Error ''Invalid document path. Path does not match pattern.'')
               else
                 (case group result ''database_id'' of
                    None \<Rightarrow> Inl (Error ''Invalid document path. Path does not match pattern.'')
                  | Some database_id \<Rightarrow>
                      if database_id = []
                      then Inl (Error ''Invalid document path. Path does not match pattern.'')
                      else
                        (case group result ''document_path'' of
                           None \<Rightarrow>
                             Inl (Error ''Invalid document path. Path does not match pattern.'')
                         | Some document_path \<Rightarrow>
                             if document_path = []
                             then Inl (Error
                                    ''Invalid document path. Path does not match pattern.'')
                             else Inr \<lparr> res_project_id = project_id,
                                        res_database_id = database_id,
                                        res_document_path = document_path \<rparr>))))"

section \<open>The state that a getter call runs in\<close>

text \<open>
  A getter runs with two objects in reach: \<open>this\<close>, and the static
  \<open>LiteralDocumentReference.pattern\<close>, which every object of the class shares. A \<open>URLPattern\<close> holds a
  \<open>RegExp\<close> for each component, and a \<open>RegExp\<close> is a mutable object: \<open>exec\<close> reads and
  writes its \<open>lastIndex\<close> when the flag \<open>g\<close> or \<open>y\<close> is set. The state below keeps \<open>this\<close> and
  the \<open>RegExp\<close> of the pathname; the other components are wildcards that always match.
\<close>

record RegExp =
  source :: "part list"
  global :: bool
  sticky :: bool
  lastIndex :: nat

text \<open>
  \<open>RegExp.prototype.exec\<close> (RegExpBuiltinExec of ECMAScript) on an expression that
  \<open>URLPattern\<close> generates: anchored by \<open>^\<close> and \<open>$\<close> without the flag \<open>m\<close>, so a match starts at
  index 0 and ends at the end of the input. With \<open>g\<close> or \<open>y\<close> the search starts at
  \<open>lastIndex\<close>; a failure resets \<open>lastIndex\<close> to 0 and a success sets it to the end of the match.
  Without them \<open>lastIndex\<close> is neither read nor written.
\<close>

definition RegExpBuiltinExec :: "RegExp \<Rightarrow> string \<Rightarrow> groups option \<times> RegExp" where
  "RegExpBuiltinExec R S =
     (if global R \<or> sticky R
      then (if lastIndex R \<noteq> 0 then (None, R\<lparr> lastIndex := 0 \<rparr>)
            else (case match_parts (source R) S of
                    None \<Rightarrow> (None, R\<lparr> lastIndex := 0 \<rparr>)
                  | Some g \<Rightarrow> (Some g, R\<lparr> lastIndex := length S \<rparr>)))
      else (match_parts (source R) S, R))"

text \<open>
  \<open>new URLPattern({ pathname: ... })\<close> in the static initializer (types.ts, line 30): the
  expressions are created with the flag \<open>v\<close> or \<open>u\<close> only.
\<close>

definition new_URLPattern :: "part list \<Rightarrow> RegExp" where
  "new_URLPattern pat = \<lparr> source = pat, global = False, sticky = False, lastIndex = 0 \<rparr>"

record 'a state =
  this_object :: "'a LiteralDocumentReference_scheme"
  static_pattern :: RegExp

text \<open>The state once the class is loaded and the constructor has run.\<close>

definition new_LiteralDocumentReference :: "string \<Rightarrow> unit state" where
  "new_LiteralDocumentReference value =
     \<lparr> this_object = constructor value, static_pattern = new_URLPattern pattern \<rparr>"

text \<open>\<open>LiteralDocumentReference.pattern.exec(input)\<close>, with the state it leaves.\<close>

definition pattern_exec ::
  "scheme_relative \<Rightarrow> string \<Rightarrow> 'a state \<Rightarrow> groups option \<times> 'a state" where
  "pattern_exec scheme_relative input s =
     (case input_pathname scheme_relative input of
        None \<Rightarrow> (None, s)
      | Some pathname \<Rightarrow>
          (case RegExpBuiltinExec (static_pattern s) pathname of
             (result, R) \<Rightarrow> (result, s\<lparr> static_pattern := R \<rparr>)))"

text \<open>\<open>parse\<close> and the getters once more, each statement with the state it reads and leaves.\<close>

definition parse_in ::
  "scheme_relative \<Rightarrow> 'a state \<Rightarrow> (error + parse_result) \<times> 'a state" where
  "parse_in scheme_relative s =
     (case pattern_exec scheme_relative (''https://hostname/'' @ referenceValue (this_object s)) s of
        (None, s') \<Rightarrow> (Inl (Error ''Invalid document path. Path does not match pattern.''), s')
      | (Some result, s') \<Rightarrow>
          (case group result ''project_id'' of
             None \<Rightarrow> (Inl (Error ''Invalid document path. Path does not match pattern.''), s')
           | Some project_id \<Rightarrow>
               if project_id = []
               then (Inl (Error ''Invalid document path. Path does not match pattern.''), s')
               else
                 (case group result ''database_id'' of
                    None \<Rightarrow>
                      (Inl (Error ''Invalid document path. Path does not match pattern.''), s')
                  | Some database_id \<Rightarrow>
                      if database_id = []
                      then (Inl (Error ''Invalid document path. Path does not match pattern.''),
                            s')
                      else
                        (case group result ''document_path'' of
                           None \<Rightarrow>
                             (Inl (Error
                                ''Invalid document path. Path does not match pattern.''), s')
                         | Some document_path \<Rightarrow>
                             if document_path = []
                             then (Inl (Error
                                     ''Invalid document path. Path does not match pattern.''), s')
                             else (Inr \<lparr> res_project_id = project_id,
                                         res_database_id = database_id,
                                         res_document_path = document_path \<rparr>, s')))))"

datatype accessor = Project_id | Database_id | Id | CollectionPath | Path

text \<open>A getter call: the getter's body, run on the state.\<close>

fun call ::
  "scheme_relative \<Rightarrow> accessor \<Rightarrow> 'a state \<Rightarrow> (error + string) \<times> 'a state" where
  "call scheme_relative Project_id s =
     (case parse_in scheme_relative s of
        (Inl e, s') \<Rightarrow> (Inl e, s')
      | (Inr r, s') \<Rightarrow> (Inr (res_project_id r), s'))"
| "call scheme_relative Database_id s =
     (case parse_in scheme_relative s of
        (Inl e, s') \<Rightarrow> (Inl e, s')
      | (Inr r, s') \<Rightarrow> (Inr (res_database_id r), s'))"
| "call scheme_relative Id s =
     (case parse_in scheme_relative s of
        (Inl e, s') \<Rightarrow> (Inl e, s')
      | (Inr r, s') \<Rightarrow>
          let path = res_document_path r;
              parts = js_split (CHR ''/'') path;
              docId = last parts
          in (Inr docId, s'))"
| "call scheme_relative CollectionPath s =
     (case parse_in scheme_relative s of
        (Inl e, s') \<Rightarrow> (Inl e, s')
      | (Inr r, s') \<Rightarrow>
          let path = res_document_path r;
              parts = js_split (CHR ''/'') path
          in (Inr (js_join ''/'' (take (length parts - 1) parts)), s'))"
| "call scheme_relative Path s =
     (case parse_in scheme_relative s of
        (Inl e, s') \<Rightarrow> (Inl e, s')
      | (Inr r, s') \<Rightarrow> (Inr (res_document_path r), s'))"

text \<open>A sequence of getter calls on the same object, one after the other.\<close>

fun calls ::
  "scheme_relative \<Rightarrow> accessor list \<Rightarrow> 'a state \<Rightarrow> (error + string) list \<times> 'a state" where
  "calls scheme_relative [] s = ([], s)"
| "calls scheme_relative (a # as) s =
     (case call scheme_relative a s of
        (outcome, s') \<Rightarrow>
          (case calls scheme_relative as s' of
             (outcomes, s'') \<Rightarrow> (outcome # outcomes, s'')))"

text \<open>
  What the static initializer establishes, whatever \<open>lastIndex\<close> holds. The field is
  \<open>private static\<close> and \<open>parse\<close> is the only code of the class that touches it, so it holds
  in the state after construction and, the getters leaving the state as it is, ever after.
\<close>

definition pattern_as_initialized :: "'a state \<Rightarrow> bool" where
  "pattern_as_initialized s =
     (source (static_pattern s) = pattern \<and>
      \<not> global (static_pattern s) \<and> \<not> sticky (static_pattern s))"

section \<open>The getters as functions of the object\<close>

text \<open>The five getters. The getter \<open>id\<close> is named \<open>document_id\<close> here.\<close>

definition project_id ::
  "scheme_relative \<Rightarrow> 'a LiteralDocumentReference_scheme \<Rightarrow> error + string" where
  "project_id scheme_relative this = (case parse scheme_relative this of Inl e \<Rightarrow> Inl e | Inr r \<Rightarrow> Inr (res_project_id r))"

definition database_id ::
  "scheme_relative \<Rightarrow> 'a LiteralDocumentReference_scheme \<Rightarrow> error + string" where
  "database_id scheme_relative this = (case parse scheme_relative this of Inl e \<Rightarrow> Inl e | Inr r \<Rightarrow> Inr (res_database_id r))"

definition document_id ::
  "scheme_relative \<Rightarrow> 'a LiteralDocumentReference_scheme \<Rightarrow> error + string" where
  "document_id scheme_relative this =
     (case parse scheme_relative this of
        Inl e \<Rightarrow> Inl e
      | Inr r \<Rightarrow>
          let path = res_document_path r;
              parts = js_split (CHR ''/'') path;
              docId = last parts
          in Inr docId)"

definition collectionPath ::
  "scheme_relative \<Rightarrow> 'a LiteralDocumentReference_scheme \<Rightarrow> error + string" where
  "collectionPath scheme_relative this =
     (case parse scheme_relative this of
        Inl e \<Rightarrow> Inl e
      | Inr r \<Rightarrow>
          let path = res_document_path r;
              parts = js_split (CHR ''/'') path
          in Inr (js_join ''/'' (take (length parts - 1) parts)))"

definition path ::
  "scheme_relative \<Rightarrow> 'a LiteralDocumentReference_scheme \<Rightarrow> error + string" where
  "path scheme_relative this = (case parse scheme_relative this of Inl e \<Rightarrow> Inl e | Inr r \<Rightarrow> Inr (res_document_path r))"

text \<open>A getter chosen by name, on the object alone.\<close>

fun get ::
  "scheme_relative \<Rightarrow> accessor \<Rightarrow> 'a LiteralDocumentReference_scheme \<Rightarrow> error + string" where
  "get scheme_relative Project_id this = project_id scheme_relative this"
| "get scheme_relative Database_id this = database_id scheme_relative this"
| "get scheme_relative Id this = document_id scheme_relative this"
| "get scheme_relative CollectionPath this = collectionPath scheme_relative this"
| "get scheme_relative Path this = path scheme_relative this"

section \<open>Properties of reference strings\<close>

text \<open>
  The characters that the path state copies as they are: not in the path percent-encode
  set (so no control, space, \<open>?\<close> or \<open>#\<close> either), and neither \<open>/\<close> nor \<open>\\<close>. A segment of
  such characters that is not a dot segment reaches the pathname unchanged.
\<close>

definition url_unchanged_char :: "char \<Rightarrow> bool" where
  "url_unchanged_char c =
     (\<not> path_percent_encode_set c \<and> c \<noteq> CHR ''/'' \<and> c \<noteq> CHR 0x5C)"

definition url_unchanged_segment :: "string \<Rightarrow> bool" where
  "url_unchanged_segment s =
     (list_all url_unchanged_char s \<and> \<not> single_dot_segment s \<and> \<not> double_dot_segment s)"

definition url_unchanged :: "string \<Rightarrow> bool" where
  "url_unchanged ref = list_all url_unchanged_segment (js_split (CHR ''/'') ref)"

text \<open>
  The grammar as the specification words it, on the string itself:
  \<open>projects/P/databases/D/documents/dp\<close> with \<open>P\<close> and \<open>D\<close> one non-empty segment each and
  \<open>dp\<close> one or more non-empty segments joined by \<open>/\<close>.
\<close>

definition matches_grammar :: "string \<Rightarrow> string \<Rightarrow> string \<Rightarrow> string \<Rightarrow> bool" where
  "matches_grammar ref P D dp =
     (ref = ''projects/'' @ P @ ''/databases/'' @ D @ ''/documents/'' @ dp \<and>
      P \<noteq> [] \<and> CHR ''/'' \<notin> set P \<and>
      D \<noteq> [] \<and> CHR ''/'' \<notin> set D \<and>
      dp \<noteq> [] \<and> [] \<notin> set (js_split (CHR ''/'') dp))"

text \<open>
  What the path state makes of one segment: ASCII tab and newline are removed before it
  runs, and it percent-encodes every other character of the path percent-encode set.
\<close>

definition url_segment_image :: "string \<Rightarrow> string" where
  "url_segment_image p =
     concat (map (utf8_percent_encode path_percent_encode_set) (remove_tab_or_newline p))"

text \<open>
  A segment that the parser rewrites in this way and no other: it holds none of the
  characters that end a segment or the path (the slash, the backslash, \<open>?\<close> and \<open>#\<close>), and
  what it is rewritten to is not a dot segment.
\<close>

definition url_encodes_segment :: "string \<Rightarrow> bool" where
  "url_encodes_segment p =
     (list_all (\<lambda>c. c \<noteq> CHR ''/'' \<and> c \<noteq> CHR 0x5C \<and> c \<noteq> CHR ''?'' \<and> c \<noteq> CHR ''#'') p \<and>
      \<not> single_dot_segment (url_segment_image p) \<and>
      \<not> double_dot_segment (url_segment_image p))"



section \<open>FirestoreFieldValue\<close>

text \<open>
  \<open>FirestoreFieldValue\<close> is a type, not a class: a union of ten object types, each naming one
  property. TypeScript types are structural, so a value has the type when it has the
  properties of one member of the union, with values of the types named there; what else
  the object holds is not looked at. The values are those of JavaScript; a \<open>number\<close> is
  left as the type parameter \<open>'n\<close>, and an object is the list of its properties, each key at
  most once.
\<close>

datatype 'n js_value =
    Undefined
  | Null
  | Boolean bool
  | Number 'n
  | String string
  | Array "'n js_value list"
  | Object "(string \<times> 'n js_value) list"

text \<open>\<open>value[key]\<close>: undefined where the value is no object or has no such property.\<close>

fun property :: "'n js_value \<Rightarrow> string \<Rightarrow> 'n js_value" where
  "property (Object props) key = (case map_of props key of None \<Rightarrow> Undefined | Some v \<Rightarrow> v)"
| "property _ key = Undefined"

fun is_string :: "'n js_value \<Rightarrow> bool" where
  "is_string (String _) = True"
| "is_string _ = False"

fun is_number :: "'n js_value \<Rightarrow> bool" where
  "is_number (Number _) = True"
| "is_number _ = False"

fun is_boolean :: "'n js_value \<Rightarrow> bool" where
  "is_boolean (Boolean _) = True"
| "is_boolean _ = False"

fun is_null :: "'n js_value \<Rightarrow> bool" where
  "is_null Null = True"
| "is_null _ = False"

text \<open>\<open>{ latitude: number, longitude: number }\<close>, the type of \<open>geoPointValue\<close>.\<close>

definition is_geoPoint :: "'n js_value \<Rightarrow> bool" where
  "is_geoPoint v = (is_number (property v ''latitude'') \<and> is_number (property v ''longitude''))"

text \<open>The eight members of the union whose property type does not mention the union.\<close>

definition is_scalar_FirestoreFieldValue :: "'n js_value \<Rightarrow> bool" where
  "is_scalar_FirestoreFieldValue v =
     (is_string (property v ''stringValue'') \<or>
      is_number (property v ''integerValue'') \<or>
      is_number (property v ''doubleValue'') \<or>
      is_boolean (property v ''booleanValue'') \<or>
      is_null (property v ''nullValue'') \<or>
      is_string (property v ''timestampValue'') \<or>
      is_geoPoint (property v ''geoPointValue'') \<or>
      is_string (property v ''referenceValue''))"

text \<open>
  The union: the eight members above, \<open>{ mapValue: { fields: Record<string, FirestoreFieldValue> } }\<close>
  and \<open>{ arrayValue: { values: FirestoreFieldValue[] } }\<close>.
\<close>

function is_FirestoreFieldValue :: "'n js_value \<Rightarrow> bool" where
  "is_FirestoreFieldValue v =
     (is_scalar_FirestoreFieldValue v \<or>
      (case property (property v ''mapValue'') ''fields'' of
         Object entries \<Rightarrow> list_all (\<lambda>entry. is_FirestoreFieldValue (snd entry)) entries
       | _ \<Rightarrow> False) \<or>
      (case property (property v ''arrayValue'') ''values'' of
         Array elements \<Rightarrow> list_all is_FirestoreFieldValue elements
       | _ \<Rightarrow> False))"
  by pat_completeness auto

termination is_FirestoreFieldValue
proof (relation "measure size")
  have size_entry: "size (snd entry) < size (Object entries)" if "entry \<in> set entries"
    for entry :: "string \<times> 'n js_value" and entries
    using that by (induction entries) auto
  have size_element: "size x < size (Array elements)" if "x \<in> set elements"
    for x :: "'n js_value" and elements
    using that by (induction elements) auto
  have size_property: "size (property v key) \<le> size v" for v :: "'n js_value" and key
  proof (cases v)
    case (Object props)
    show ?thesis
    proof (cases "map_of props key")
      case None
      with Object show ?thesis by simp
    next
      case (Some x)
      then have "(key, x) \<in> set props" by (rule map_of_SomeD)
      then have "size (snd (key, x)) < size (Object props)" by (rule size_entry)
      with Object Some show ?thesis by simp
    qed
  qed simp_all
  show "wf (measure size)" by simp
  show "(snd entry, v) \<in> measure size"
    if "property (property v ''mapValue'') ''fields'' = Object entries" "entry \<in> set entries"
    for v :: "'n js_value" and entries entry
  proof -
    have "size (snd entry) < size (property (property v ''mapValue'') ''fields'')"
      using that by (simp only: size_entry)
    also have "\<dots> \<le> size (property v ''mapValue'')" by (rule size_property)
    also have "\<dots> \<le> size v" by (rule size_property)
    finally show ?thesis by simp
  qed
  show "(x, v) \<in> measure size"
    if "property (property v ''arrayValue'') ''values'' = Array elements" "x \<in> set elements"
    for v :: "'n js_value" and elements x
  proof -
    have "size x < size (property (property v ''arrayValue'') ''values'')"
      using that by (simp only: size_element)
    also have "\<dots> \<le> size (property v ''arrayValue'')" by (rule size_property)
    also have "\<dots> \<le> size v" by (rule size_property)
    finally show ?thesis by simp
  qed
qed

declare is_FirestoreFieldValue.simps [simp del]

text \<open>
  The ten property names of the union (types.ts, lines 120 to 129), and whether a value
  has one of them.
\<close>

definition variant_tags :: "string list" where
  "variant_tags =
     [''stringValue'', ''integerValue'', ''doubleValue'', ''booleanValue'', ''nullValue'',
      ''timestampValue'', ''geoPointValue'', ''referenceValue'', ''mapValue'', ''arrayValue'']"

definition carries :: "'n js_value \<Rightarrow> string \<Rightarrow> bool" where
  "carries v tag = (property v tag \<noteq> Undefined)"

section \<open>Splitting and joining\<close>

lemma js_split_not_Nil: "js_split sep s \<noteq> []"
  by (induction s) (auto split: list.splits)

lemma js_split_no_sep: "sep \<notin> set s \<Longrightarrow> js_split sep s = [s]"
  by (induction s) auto

lemma js_split_append_sep:
  "sep \<notin> set a \<Longrightarrow> js_split sep (a @ sep # b) = a # js_split sep b"
  by (induction a) auto

lemma js_join_Cons:
  "ys \<noteq> [] \<Longrightarrow> js_join sep (x # ys) = x @ sep @ js_join sep ys"
  by (cases ys) auto

lemma js_split_join:
  "segs \<noteq> [] \<Longrightarrow> \<forall>s\<in>set segs. sep \<notin> set s \<Longrightarrow> js_split sep (js_join [sep] segs) = segs"
proof (induction segs)
  case Nil
  then show ?case by simp
next
  case (Cons x xs)
  show ?case
  proof (cases xs)
    case Nil
    with Cons.prems show ?thesis by (simp add: js_split_no_sep)
  next
    case (Cons y ys)
    with Cons.prems Cons.IH show ?thesis
      by (simp add: js_split_append_sep)
  qed
qed

lemma js_join_split: "js_join [sep] (js_split sep s) = s"
proof (induction s)
  case Nil
  then show ?case by simp
next
  case (Cons c cs)
  obtain p ps where sp: "js_split sep cs = p # ps"
    using js_split_not_Nil [of sep cs] by (cases "js_split sep cs") auto
  show ?case
  proof (cases "c = sep")
    case True
    with Cons sp show ?thesis by simp
  next
    case False
    with Cons sp show ?thesis by (cases ps) auto
  qed
qed


lemma js_split_length_sep: "sep \<in> set s \<Longrightarrow> 2 \<le> length (js_split sep s)"
proof (induction s)
  case Nil
  then show ?case by simp
next
  case (Cons c cs)
  obtain p ps where sp: "js_split sep cs = p # ps"
    using js_split_not_Nil [of sep cs] by (cases "js_split sep cs") auto
  with Cons show ?case by (auto split: if_splits)
qed

lemma js_join_butlast_last_Cons:
  "xs \<noteq> [] \<Longrightarrow> js_join sep (butlast (x # xs)) @ sep @ last (x # xs) = js_join sep (x # xs)"
proof (induction xs arbitrary: x)
  case Nil
  then show ?case by simp
next
  case (Cons y ys)
  show ?case
  proof (cases ys)
    case Nil
    then show ?thesis by simp
  next
    case (Cons z zs)
    have "js_join sep (butlast (y # ys)) @ sep @ last (y # ys) = js_join sep (y # ys)"
      using Cons.IH [of y] Cons by simp
    moreover have "butlast (x # y # ys) = x # butlast (y # ys)" by simp
    moreover have "butlast (y # ys) \<noteq> []" using Cons by simp
    moreover have "last (x # y # ys) = last (y # ys)" by simp
    ultimately show ?thesis
      by (simp only: js_join_Cons append_assoc list.distinct not_False_eq_True)
  qed
qed

lemma js_join_butlast_last:
  "2 \<le> length xs \<Longrightarrow> js_join sep (butlast xs) @ sep @ last xs = js_join sep xs"
proof -
  assume "2 \<le> length xs"
  then obtain x ys where "xs = x # ys" "ys \<noteq> []"
    by (cases xs; cases "tl xs") auto
  then show ?thesis using js_join_butlast_last_Cons [of ys sep x] by simp
qed

section \<open>The URL parser on unchanged strings\<close>

lemma url_unchanged_char_not_query: "url_unchanged_char c \<Longrightarrow> c \<noteq> CHR ''?''"
  by (simp add: url_unchanged_char_def path_percent_encode_set_def)

lemma url_unchanged_char_not_fragment: "url_unchanged_char c \<Longrightarrow> c \<noteq> CHR ''#''"
  by (simp add: url_unchanged_char_def path_percent_encode_set_def query_percent_encode_set_def)

lemma url_unchanged_char_not_slash:
  "url_unchanged_char c \<Longrightarrow> c \<noteq> CHR ''/'' \<and> c \<noteq> CHR 0x5C"
  by (simp add: url_unchanged_char_def)

lemma url_unchanged_char_not_c0: "url_unchanged_char c \<Longrightarrow> \<not> c0_control_or_space c"
  by (simp add: url_unchanged_char_def path_percent_encode_set_def query_percent_encode_set_def
      c0_control_percent_encode_set_def c0_control_or_space_def)

lemma tab_or_newline_is_c0: "ascii_tab_or_newline c \<Longrightarrow> c0_control_or_space c"
  unfolding c0_control_or_space_def ascii_tab_or_newline_def
  by (cases "c = CHR 0x09"; cases "c = CHR 0x0A"; cases "c = CHR 0x0D"; simp)

lemma url_unchanged_char_encode:
  "url_unchanged_char c \<Longrightarrow> utf8_percent_encode path_percent_encode_set c = [c]"
  by (simp add: url_unchanged_char_def utf8_percent_encode_def)

lemma slash_not_c0: "\<not> c0_control_or_space (CHR ''/'')"
  by (simp add: c0_control_or_space_def)

lemma path_state_unchanged_chars:
  "list_all url_unchanged_char s \<Longrightarrow>
     path_state (s @ rest) pth buffer = path_state rest pth (buffer @ s)"
  by (induction s arbitrary: buffer)
    (simp_all add: url_unchanged_char_not_query url_unchanged_char_not_fragment
      url_unchanged_char_not_slash url_unchanged_char_encode)

lemma path_state_segments:
  "segs \<noteq> [] \<Longrightarrow> list_all url_unchanged_segment segs \<Longrightarrow>
     path_state (js_join ''/'' segs) pth [] = pth @ segs"
proof (induction segs arbitrary: pth)
  case Nil
  then show ?case by simp
next
  case (Cons x xs)
  from Cons.prems have x: "list_all url_unchanged_char x" "\<not> single_dot_segment x"
    "\<not> double_dot_segment x"
    by (simp_all add: url_unchanged_segment_def)
  show ?case
  proof (cases xs)
    case Nil
    have "path_state (x @ []) pth [] = path_state [] pth ([] @ x)"
      using x(1) by (rule path_state_unchanged_chars)
    with Nil x show ?thesis by (simp add: path_end_def)
  next
    case (Cons y ys)
    have "path_state (x @ CHR ''/'' # js_join ''/'' xs) pth []
            = path_state (CHR ''/'' # js_join ''/'' xs) pth ([] @ x)"
      using x(1) by (rule path_state_unchanged_chars)
    also have "\<dots> = path_state (js_join ''/'' xs) (pth @ [x]) []"
      using x by (simp add: path_segment_end_def)
    also have "\<dots> = (pth @ [x]) @ xs"
      using Cons.IH [of "pth @ [x]"] Cons.prems Cons by simp
    finally show ?thesis using Cons by simp
  qed
qed

lemma serialize_path_join:
  "segs \<noteq> [] \<Longrightarrow> serialize_path segs = CHR ''/'' # js_join ''/'' segs"
proof (induction segs)
  case Nil
  then show ?case by simp
next
  case (Cons x xs)
  then show ?case by (cases xs) (simp_all add: serialize_path_def)
qed

lemma dropWhile_none: "\<forall>x\<in>set xs. \<not> P x \<Longrightarrow> dropWhile P xs = xs"
  by (cases xs) simp_all

lemma strip_c0_control_or_space_id:
  assumes "\<forall>c\<in>set s. \<not> c0_control_or_space c"
  shows "strip_c0_control_or_space s = s"
proof -
  have "\<forall>c\<in>set (rev s). \<not> c0_control_or_space c"
    using assms by simp
  then have "dropWhile c0_control_or_space (rev s) = rev s"
    by (rule dropWhile_none)
  moreover have "dropWhile c0_control_or_space s = s"
    using assms by (rule dropWhile_none)
  ultimately show ?thesis by (simp add: strip_c0_control_or_space_def)
qed

lemma remove_tab_or_newline_id:
  "\<forall>c\<in>set s. \<not> ascii_tab_or_newline c \<Longrightarrow> remove_tab_or_newline s = s"
  by (simp add: remove_tab_or_newline_def)

lemma set_js_join:
  "set (js_join [sep] segs) \<subseteq> insert sep (\<Union> (set ` set segs))"
  by (induction "[sep]" segs rule: js_join.induct) auto

lemma url_unchanged_chars:
  assumes "url_unchanged ref" "c \<in> set ref"
  shows "c = CHR ''/'' \<or> url_unchanged_char c"
proof -
  have "c \<in> set (js_join ''/'' (js_split (CHR ''/'') ref))"
    using assms(2) by (simp add: js_join_split)
  then have "c = CHR ''/'' \<or> (\<exists>s\<in>set (js_split (CHR ''/'') ref). c \<in> set s)"
    using set_js_join [of "CHR ''/''" "js_split (CHR ''/'') ref"] by auto
  then show ?thesis
    using assms(1) by (auto simp: url_unchanged_def url_unchanged_segment_def list_all_iff)
qed

lemma url_pathname_unchanged:
  assumes "url_unchanged ref"
  shows "url_pathname (''https://hostname/'' @ ref) = Some (CHR ''/'' # ref)"
proof -
  let ?input = "''https://hostname/'' @ ref"
  have ref: "\<forall>c\<in>set ref. \<not> c0_control_or_space c"
    using assms url_unchanged_chars url_unchanged_char_not_c0 slash_not_c0 by blast
  have "\<forall>c\<in>set ''https://hostname/''. \<not> c0_control_or_space c"
    by (simp add: c0_control_or_space_def)
  with ref have input: "\<forall>c\<in>set ?input. \<not> c0_control_or_space c"
    by (simp only: set_append ball_Un simp_thms)
  then have strip: "strip_c0_control_or_space ?input = ?input"
    by (rule strip_c0_control_or_space_id)
  have "\<forall>c\<in>set ?input. \<not> ascii_tab_or_newline c"
    using input tab_or_newline_is_c0 by blast
  then have remove: "remove_tab_or_newline ?input = ?input"
    by (rule remove_tab_or_newline_id)
  have "path_state (js_join ''/'' (js_split (CHR ''/'') ref)) [] [] = [] @ js_split (CHR ''/'') ref"
    using assms by (intro path_state_segments) (simp_all add: js_split_not_Nil url_unchanged_def)
  then have "path_state ref [] [] = js_split (CHR ''/'') ref"
    by (simp add: js_join_split)
  then have "serialize_path (path_state ref [] []) = CHR ''/'' # ref"
    by (simp add: serialize_path_join js_split_not_Nil js_join_split)
  then show ?thesis
    by (simp only: url_pathname_def strip remove Let_def) simp
qed

section \<open>The pattern match\<close>

lemma match_FixedText:
  "match_parts (FixedText t # ps) s = Some g \<longleftrightarrow>
     (\<exists>rest. s = t @ rest \<and> match_parts ps rest = Some g)"
proof
  assume a: "match_parts (FixedText t # ps) s = Some g"
  then have "take (length t) s = t" "match_parts ps (drop (length t) s) = Some g"
    by (simp_all split: if_splits)
  moreover have "s = take (length t) s @ drop (length t) s" by simp
  ultimately show "\<exists>rest. s = t @ rest \<and> match_parts ps rest = Some g"
    by metis
next
  assume "\<exists>rest. s = t @ rest \<and> match_parts ps rest = Some g"
  then show "match_parts (FixedText t # ps) s = Some g" by auto
qed

lemma takeWhile_segment:
  "CHR ''/'' \<notin> set v \<Longrightarrow> takeWhile (\<lambda>x. x \<noteq> CHR ''/'') (v @ CHR ''/'' # rest) = v"
  by (induction v) auto

lemma dropWhile_segment:
  "CHR ''/'' \<notin> set v \<Longrightarrow>
     dropWhile (\<lambda>x. x \<noteq> CHR ''/'') (v @ CHR ''/'' # rest) = CHR ''/'' # rest"
  by (induction v) auto

lemma takeWhile_no_slash:
  "CHR ''/'' \<notin> set v \<Longrightarrow> takeWhile (\<lambda>x. x \<noteq> CHR ''/'') v = v"
  by (induction v) auto

lemma dropWhile_no_slash:
  "CHR ''/'' \<notin> set v \<Longrightarrow> dropWhile (\<lambda>x. x \<noteq> CHR ''/'') v = []"
  by (induction v) auto

lemma match_SegmentGroup_slash:
  "match_parts (SegmentGroup name # ps) s = Some g \<longleftrightarrow>
     (\<exists>v rest g'. s = CHR ''/'' # v @ rest \<and> v \<noteq> [] \<and> CHR ''/'' \<notin> set v \<and>
        (rest = [] \<or> hd rest = CHR ''/'') \<and>
        match_parts ps rest = Some g' \<and> g = (name, Some v) # g')"
proof
  assume a: "match_parts (SegmentGroup name # ps) s = Some g"
  then obtain rest0 where s: "s = CHR ''/'' # rest0"
    by (cases s) (auto split: if_splits)
  let ?v = "takeWhile (\<lambda>x. x \<noteq> CHR ''/'') rest0"
  let ?r = "dropWhile (\<lambda>x. x \<noteq> CHR ''/'') rest0"
  from a s have v: "?v \<noteq> []" and "map_option (\<lambda>g. (name, Some ?v) # g) (match_parts ps ?r) = Some g"
    by (simp_all split: if_splits)
  then obtain g' where g': "match_parts ps ?r = Some g'" "g = (name, Some ?v) # g'"
    by auto
  have "CHR ''/'' \<notin> set ?v"
    using set_takeWhileD by fastforce
  moreover have "?r = [] \<or> hd ?r = CHR ''/''"
    using hd_dropWhile [of "\<lambda>x. x \<noteq> CHR ''/''" rest0] by auto
  moreover have "s = CHR ''/'' # ?v @ ?r" using s by simp
  ultimately show "\<exists>v rest g'. s = CHR ''/'' # v @ rest \<and> v \<noteq> [] \<and> CHR ''/'' \<notin> set v \<and>
        (rest = [] \<or> hd rest = CHR ''/'') \<and>
        match_parts ps rest = Some g' \<and> g = (name, Some v) # g'"
    using v g' by blast
next
  assume "\<exists>v rest g'. s = CHR ''/'' # v @ rest \<and> v \<noteq> [] \<and> CHR ''/'' \<notin> set v \<and>
        (rest = [] \<or> hd rest = CHR ''/'') \<and>
        match_parts ps rest = Some g' \<and> g = (name, Some v) # g'"
  then obtain v rest g' where h: "s = CHR ''/'' # v @ rest" "v \<noteq> []" "CHR ''/'' \<notin> set v"
    "rest = [] \<or> hd rest = CHR ''/''" "match_parts ps rest = Some g'" "g = (name, Some v) # g'"
    by blast
  show "match_parts (SegmentGroup name # ps) s = Some g"
  proof (cases rest)
    case Nil
    with h show ?thesis by (simp add: takeWhile_no_slash dropWhile_no_slash)
  next
    case (Cons c cs)
    with h have "rest = CHR ''/'' # cs" by simp
    with h show ?thesis by (simp add: takeWhile_segment dropWhile_segment)
  qed
qed

lemma match_SegmentGroupStar:
  "match_parts [SegmentGroupStar name] s = Some g \<longleftrightarrow>
     (s = [] \<and> g = [(name, None)]) \<or>
     (\<exists>rest. s = CHR ''/'' # rest \<and> [] \<notin> set (js_split (CHR ''/'') rest) \<and>
        g = [(name, Some rest)])"
  by (cases s) auto

lemma match_pattern_intro:
  assumes "P \<noteq> []" "CHR ''/'' \<notin> set P" "D \<noteq> []" "CHR ''/'' \<notin> set D"
    "[] \<notin> set (js_split (CHR ''/'') dp)"
  shows "match_parts pattern (''/projects/'' @ P @ ''/databases/'' @ D @ ''/documents/'' @ dp)
           = Some [(''project_id'', Some P), (''database_id'', Some D),
                   (''document_path'', Some dp)]"
  using assms by (simp add: pattern_def takeWhile_segment dropWhile_segment)

lemma match_pattern_elim:
  assumes "match_parts pattern s = Some g"
  shows "\<exists>P D dpo. g = [(''project_id'', Some P), (''database_id'', Some D),
                           (''document_path'', dpo)] \<and>
           P \<noteq> [] \<and> CHR ''/'' \<notin> set P \<and> D \<noteq> [] \<and> CHR ''/'' \<notin> set D \<and>
           (case dpo of
              None \<Rightarrow> s = ''/projects/'' @ P @ ''/databases/'' @ D @ ''/documents''
            | Some dp \<Rightarrow> s = ''/projects/'' @ P @ ''/databases/'' @ D @ ''/documents/'' @ dp \<and>
                [] \<notin> set (js_split (CHR ''/'') dp))"
proof -
  from assms obtain s1 where s1: "s = ''/projects'' @ s1"
    and m1: "match_parts [SegmentGroup ''project_id'', FixedText ''/databases'',
               SegmentGroup ''database_id'', FixedText ''/documents'',
               SegmentGroupStar ''document_path''] s1 = Some g"
    unfolding pattern_def match_FixedText by blast
  from m1 obtain P s2 g2 where s2: "s1 = CHR ''/'' # P @ s2" and P: "P \<noteq> []" "CHR ''/'' \<notin> set P"
    and m2: "match_parts [FixedText ''/databases'',
               SegmentGroup ''database_id'', FixedText ''/documents'',
               SegmentGroupStar ''document_path''] s2 = Some g2"
    and g: "g = (''project_id'', Some P) # g2"
    unfolding match_SegmentGroup_slash by blast
  from m2 obtain s3 where s3: "s2 = ''/databases'' @ s3"
    and m3: "match_parts [SegmentGroup ''database_id'', FixedText ''/documents'',
               SegmentGroupStar ''document_path''] s3 = Some g2"
    unfolding match_FixedText by blast
  from m3 obtain D s4 g4 where s4: "s3 = CHR ''/'' # D @ s4" and D: "D \<noteq> []" "CHR ''/'' \<notin> set D"
    and m4: "match_parts [FixedText ''/documents'',
               SegmentGroupStar ''document_path''] s4 = Some g4"
    and g2: "g2 = (''database_id'', Some D) # g4"
    unfolding match_SegmentGroup_slash by blast
  from m4 obtain s5 where s5: "s4 = ''/documents'' @ s5"
    and m5: "match_parts [SegmentGroupStar ''document_path''] s5 = Some g4"
    unfolding match_FixedText by blast
  have s: "s = ''/projects/'' @ P @ ''/databases/'' @ D @ ''/documents'' @ s5"
    using s1 s2 s3 s4 s5 by simp
  from m5 consider (absent) "s5 = []" "g4 = [(''document_path'', None)]"
    | (present) dp where "s5 = CHR ''/'' # dp" "[] \<notin> set (js_split (CHR ''/'') dp)"
        "g4 = [(''document_path'', Some dp)]"
    unfolding match_SegmentGroupStar by blast
  then show ?thesis
  proof cases
    case absent
    with s g g2 P D show ?thesis by (intro exI [of _ P] exI [of _ D] exI [of _ None]) simp
  next
    case present
    with s g g2 P D show ?thesis by (intro exI [of _ P] exI [of _ D] exI [of _ "Some dp"]) simp
  qed
qed

lemma parse_Inr_intro:
  assumes "input_pathname rel (''https://hostname/'' @ referenceValue this) = Some (CHR ''/'' # s)"
    and "matches_grammar s P D dp"
  shows "parse rel this = Inr \<lparr> res_project_id = P, res_database_id = D, res_document_path = dp \<rparr>"
proof -
  have "match_parts pattern (''/projects/'' @ P @ ''/databases/'' @ D @ ''/documents/'' @ dp)
           = Some [(''project_id'', Some P), (''database_id'', Some D),
                   (''document_path'', Some dp)]"
    using assms(2) by (intro match_pattern_intro) (simp_all add: matches_grammar_def)
  moreover have "CHR ''/'' # s = ''/projects/'' @ P @ ''/databases/'' @ D @ ''/documents/'' @ dp"
    using assms(2) by (simp add: matches_grammar_def)
  ultimately have "exec rel pattern (''https://hostname/'' @ referenceValue this)
      = Some [(''project_id'', Some P), (''database_id'', Some D), (''document_path'', Some dp)]"
    using assms(1) by (simp add: exec_def)
  moreover have "P \<noteq> []" "D \<noteq> []" "dp \<noteq> []"
    using assms(2) by (simp_all add: matches_grammar_def)
  ultimately show ?thesis
    by (simp add: parse_def group_def)
qed

lemma parse_Inr_elim:
  assumes "parse rel this = Inr r"
  shows "\<exists>s. input_pathname rel (''https://hostname/'' @ referenceValue this) = Some (CHR ''/'' # s) \<and>
           matches_grammar s (res_project_id r) (res_database_id r) (res_document_path r)"
proof -
  from assms obtain g where g: "exec rel pattern (''https://hostname/'' @ referenceValue this) = Some g"
    by (cases "exec rel pattern (''https://hostname/'' @ referenceValue this)") (simp_all add: parse_def)
  then obtain pn where pn: "input_pathname rel (''https://hostname/'' @ referenceValue this) = Some pn"
    and m: "match_parts pattern pn = Some g"
    by (auto simp: exec_def split: option.splits)
  from match_pattern_elim [OF m] obtain P D dpo where
    gs: "g = [(''project_id'', Some P), (''database_id'', Some D), (''document_path'', dpo)]"
    and PD: "P \<noteq> []" "CHR ''/'' \<notin> set P" "D \<noteq> []" "CHR ''/'' \<notin> set D"
    and c: "case dpo of
              None \<Rightarrow> pn = ''/projects/'' @ P @ ''/databases/'' @ D @ ''/documents''
            | Some dp \<Rightarrow> pn = ''/projects/'' @ P @ ''/databases/'' @ D @ ''/documents/'' @ dp \<and>
                [] \<notin> set (js_split (CHR ''/'') dp)"
    by blast
  from assms g gs PD obtain dp where dpo: "dpo = Some dp" and dp: "dp \<noteq> []"
    and r: "r = \<lparr> res_project_id = P, res_database_id = D, res_document_path = dp \<rparr>"
    by (cases dpo) (auto simp: parse_def group_def split: if_splits)
  from c dpo have "pn = CHR ''/'' # ''projects/'' @ P @ ''/databases/'' @ D @ ''/documents/'' @ dp"
    and "[] \<notin> set (js_split (CHR ''/'') dp)"
    by simp_all
  with pn PD dp r show ?thesis
    by (simp add: matches_grammar_def)
qed

lemma parse_Inl: "parse rel this = Inl e \<Longrightarrow> e = Error ''Invalid document path. Path does not match pattern.''"
  by (auto simp: parse_def split: option.splits if_splits)

lemmas url_eval =
  url_pathname_def strip_c0_control_or_space_def remove_tab_or_newline_def
  c0_control_or_space_def ascii_tab_or_newline_def serialize_path_def path_end_def
  path_segment_end_def shorten_path_def single_dot_segment_def double_dot_segment_def
  utf8_percent_encode_def percent_encode_def hex_digit_def path_percent_encode_set_def
  query_percent_encode_set_def c0_control_percent_encode_set_def

lemmas pathname_eval =
  input_pathname_def canonicalizePathname_def relative_url_pathname_def url_eval

lemmas get_eval = project_id_def database_id_def document_id_def collectionPath_def path_def

section \<open>The getters\<close>

lemma get_Inl_iff: "get rel a this = Inl e \<longleftrightarrow> parse rel this = Inl e"
  by (cases a) (auto simp: get_eval Let_def split: sum.splits)

lemma path_Inr_iff:
  "path rel this = Inr dp \<longleftrightarrow> (\<exists>r. parse rel this = Inr r \<and> res_document_path r = dp)"
  by (auto simp: path_def split: sum.splits)

lemma document_id_of_path:
  "path rel this = Inr dp \<Longrightarrow> document_id rel this = Inr (last (js_split (CHR ''/'') dp))"
  by (auto simp: path_def document_id_def Let_def split: sum.splits)

lemma collectionPath_of_path:
  "path rel this = Inr dp \<Longrightarrow>
     collectionPath rel this = Inr (js_join ''/'' (butlast (js_split (CHR ''/'') dp)))"
  by (auto simp: path_def collectionPath_def butlast_conv_take Let_def split: sum.splits)

lemma parse_referenceValue:
  "referenceValue other = referenceValue this \<Longrightarrow> parse rel other = parse rel this"
  by (simp add: parse_def)

lemma get_referenceValue:
  assumes "referenceValue other = referenceValue this"
  shows "get rel a other = get rel a this"
proof -
  have "parse rel other = parse rel this" using assms by (rule parse_referenceValue)
  then show ?thesis by (cases a) (simp_all only: get.simps get_eval)
qed

section \<open>The URL parser on every input of the program\<close>

text \<open>
  The prefix \<open>https://hostname/\<close> survives the stripping and the removal, so the parser
  always reaches the path state: \<open>url_pathname\<close> is never \<open>None\<close> on what \<open>parse\<close> builds.
\<close>

lemma strip_after_prefix:
  "strip_c0_control_or_space (''https://hostname/'' @ ref)
     = ''https://hostname/'' @ rev (dropWhile c0_control_or_space (rev ref))"
proof -
  have at_start: "dropWhile c0_control_or_space (''https://hostname/'' @ ref)
                 = ''https://hostname/'' @ ref"
    by (simp add: c0_control_or_space_def)
  have at_end: "dropWhile c0_control_or_space (rev ''https://hostname/'') = rev ''https://hostname/''"
    by (simp add: c0_control_or_space_def)
  have "dropWhile c0_control_or_space (rev ref @ rev ''https://hostname/'')
          = dropWhile c0_control_or_space (rev ref) @ rev ''https://hostname/''"
  proof (cases "\<forall>c\<in>set (rev ref). c0_control_or_space c")
    case True
    then have "dropWhile c0_control_or_space (rev ref) = []" by simp
    with True at_end show ?thesis by (simp only: dropWhile_append if_True append_Nil if_cancel)
  next
    case False
    then show ?thesis by (simp only: dropWhile_append if_False)
  qed
  then have "rev (dropWhile c0_control_or_space (rev (''https://hostname/'' @ ref)))
          = ''https://hostname/'' @ rev (dropWhile c0_control_or_space (rev ref))"
    by (simp only: rev_append rev_rev_ident)
  with at_start show ?thesis by (simp only: strip_c0_control_or_space_def)
qed

lemma remove_after_prefix:
  "remove_tab_or_newline (''https://hostname/'' @ s)
     = ''https://hostname/'' @ remove_tab_or_newline s"
  by (simp add: remove_tab_or_newline_def ascii_tab_or_newline_def)

lemma url_pathname_program_input:
  "url_pathname (''https://hostname/'' @ ref)
     = Some (serialize_path (path_state
         (remove_tab_or_newline (rev (dropWhile c0_control_or_space (rev ref)))) [] []))"
  by (simp only: url_pathname_def strip_after_prefix remove_after_prefix Let_def) simp

lemma path_end_not_Nil: "path_end pth buffer \<noteq> []"
  by (simp add: path_end_def)

lemma path_state_not_Nil: "path_state s pth buffer \<noteq> []"
  by (induction s pth buffer rule: path_state.induct) (simp_all add: path_end_not_Nil)

lemma serialize_path_slash: "pth \<noteq> [] \<Longrightarrow> \<exists>t. serialize_path pth = CHR ''/'' # t"
  by (cases pth) (simp_all add: serialize_path_def)

text \<open>
  The pathname of the first reading starts with \<open>/\<close>, so the second reading never takes the
  branch that puts \<open>/-\<close> in front.
\<close>

lemma url_pathname_slash: "\<exists>t. url_pathname (''https://hostname/'' @ ref) = Some (CHR ''/'' # t)"
  using serialize_path_slash [OF path_state_not_Nil]
  by (simp only: url_pathname_program_input option.inject)

text \<open>
  The second reading changes nothing on a pathname that the first reading left as the
  string was, unless the string starts with \<open>/\<close>.
\<close>

lemma slash_unchanged_not_c0:
  assumes "url_unchanged ref"
  shows "\<forall>c\<in>set (CHR ''/'' # ref). \<not> c0_control_or_space c"
  using assms url_unchanged_chars url_unchanged_char_not_c0 slash_not_c0 by auto

lemma canonicalizePathname_unchanged:
  assumes "url_unchanged ref" "take 1 ref \<noteq> ''/''"
  shows "canonicalizePathname rel (CHR ''/'' # ref) = Some (CHR ''/'' # ref)"
proof -
  have c0: "\<forall>c\<in>set (CHR ''/'' # ref). \<not> c0_control_or_space c"
    using assms(1) by (rule slash_unchanged_not_c0)
  then have strip: "strip_c0_control_or_space (CHR ''/'' # ref) = CHR ''/'' # ref"
    by (rule strip_c0_control_or_space_id)
  have "\<forall>c\<in>set (CHR ''/'' # ref). \<not> ascii_tab_or_newline c"
    using c0 tab_or_newline_is_c0 by blast
  then have remove: "remove_tab_or_newline (CHR ''/'' # ref) = CHR ''/'' # ref"
    by (rule remove_tab_or_newline_id)
  have "take 1 ref \<noteq> [CHR 0x5C]"
  proof
    assume "take 1 ref = [CHR 0x5C]"
    then have "CHR 0x5C \<in> set ref" by (cases ref) auto
    then have "url_unchanged_char (CHR 0x5C)"
      using url_unchanged_chars [OF assms(1)] by fastforce
    then show False by (simp add: url_unchanged_char_def)
  qed
  moreover have "path_state (js_join ''/'' (js_split (CHR ''/'') ref)) [] []
                   = [] @ js_split (CHR ''/'') ref"
    using assms(1) by (intro path_state_segments) (simp_all add: js_split_not_Nil url_unchanged_def)
  then have "serialize_path (path_state ref [] []) = CHR ''/'' # ref"
    by (simp add: serialize_path_join js_split_not_Nil js_join_split)
  ultimately have "relative_url_pathname rel (CHR ''/'' # ref) = Some (CHR ''/'' # ref)"
    using assms(2) by (simp add: relative_url_pathname_def strip remove)
  then show ?thesis by (simp add: canonicalizePathname_def)
qed

lemma input_pathname_unchanged:
  assumes "url_unchanged ref" "take 1 ref \<noteq> ''/''"
  shows "input_pathname rel (''https://hostname/'' @ ref) = Some (CHR ''/'' # ref)"
  using url_pathname_unchanged [OF assms(1)] canonicalizePathname_unchanged [OF assms]
  by (simp only: input_pathname_def option.case)

section \<open>Parsing well-formed references\<close>

lemma parse_no_match:
  assumes "input_pathname rel (''https://hostname/'' @ referenceValue this) = Some pn"
    and "match_parts pattern pn = None"
  shows "parse rel this = Inl (Error ''Invalid document path. Path does not match pattern.'')"
  using assms by (simp add: parse_def exec_def)

lemma parse_no_document_path:
  assumes "input_pathname rel (''https://hostname/'' @ referenceValue this) = Some pn"
    and "match_parts pattern pn = Some g" and "group g ''document_path'' = None"
  shows "parse rel this = Inl (Error ''Invalid document path. Path does not match pattern.'')"
  using assms by (simp add: parse_def exec_def split: option.splits)

lemma get_parse_Inl: "parse rel this = Inl e \<Longrightarrow> get rel a this = Inl e"
  by (simp add: get_Inl_iff)

lemma path_of_parse:
  "parse rel this = Inr r \<Longrightarrow> path rel this = Inr (res_document_path r)"
  by (simp add: path_def)

lemma url_unchanged_segment_no_slash: "url_unchanged_segment s \<Longrightarrow> CHR ''/'' \<notin> set s"
  by (auto simp: url_unchanged_segment_def list_all_iff url_unchanged_char_def)

lemma js_split_two:
  assumes "CHR ''/'' \<notin> set a" "CHR ''/'' \<notin> set b"
  shows "js_split (CHR ''/'') (a @ ''/'' @ b) = [a, b]"
proof -
  have "js_split (CHR ''/'') (a @ CHR ''/'' # b) = a # js_split (CHR ''/'') b"
    using assms(1) by (rule js_split_append_sep)
  also have "js_split (CHR ''/'') b = [b]" using assms(2) by (rule js_split_no_sep)
  finally show ?thesis by simp
qed

lemma js_split_reference:
  assumes "CHR ''/'' \<notin> set P" "CHR ''/'' \<notin> set D"
  shows "js_split (CHR ''/'') (''projects/'' @ P @ ''/databases/'' @ D @ ''/documents/'' @ dp)
           = ''projects'' # P # ''databases'' # D # ''documents'' # js_split (CHR ''/'') dp"
proof -
  have fixed: "\<And>rest. js_split (CHR ''/'') (''projects'' @ CHR ''/'' # rest)
                  = ''projects'' # js_split (CHR ''/'') rest"
    "\<And>rest. js_split (CHR ''/'') (''databases'' @ CHR ''/'' # rest)
                  = ''databases'' # js_split (CHR ''/'') rest"
    "\<And>rest. js_split (CHR ''/'') (''documents'' @ CHR ''/'' # rest)
                  = ''documents'' # js_split (CHR ''/'') rest"
    by (rule js_split_append_sep, simp)+
  have var: "\<And>rest. js_split (CHR ''/'') (P @ CHR ''/'' # rest) = P # js_split (CHR ''/'') rest"
    "\<And>rest. js_split (CHR ''/'') (D @ CHR ''/'' # rest) = D # js_split (CHR ''/'') rest"
    using assms by (simp_all add: js_split_append_sep)
  have "''projects/'' @ P @ ''/databases/'' @ D @ ''/documents/'' @ dp
          = ''projects'' @ CHR ''/'' # (P @ CHR ''/'' # (''databases'' @ CHR ''/'' #
              (D @ CHR ''/'' # (''documents'' @ CHR ''/'' # dp))))"
    by simp
  then show ?thesis
    by (simp only: fixed var)
qed

lemma url_unchanged_fixed:
  "url_unchanged_segment ''projects''" "url_unchanged_segment ''databases''"
  "url_unchanged_segment ''documents''"
  by (simp_all add: url_unchanged_segment_def url_unchanged_char_def path_percent_encode_set_def
      query_percent_encode_set_def c0_control_percent_encode_set_def single_dot_segment_def
      double_dot_segment_def)

lemma url_unchanged_reference:
  assumes "url_unchanged_segment P" "url_unchanged_segment D" "url_unchanged dp"
  shows "url_unchanged (''projects/'' @ P @ ''/databases/'' @ D @ ''/documents/'' @ dp)"
proof -
  have "CHR ''/'' \<notin> set P" "CHR ''/'' \<notin> set D"
    using assms by (simp_all add: url_unchanged_segment_no_slash)
  then have "js_split (CHR ''/'') (''projects/'' @ P @ ''/databases/'' @ D @ ''/documents/'' @ dp)
           = ''projects'' # P # ''databases'' # D # ''documents'' # js_split (CHR ''/'') dp"
    by (rule js_split_reference)
  with assms url_unchanged_fixed show ?thesis
    by (simp only: url_unchanged_def list.pred_inject simp_thms)
qed

lemma parse_unchanged:
  assumes "url_unchanged ref" "take 1 ref \<noteq> ''/''" "matches_grammar ref P D dp"
  shows "parse rel (constructor ref)
           = Inr \<lparr> res_project_id = P, res_database_id = D, res_document_path = dp \<rparr>"
proof -
  have "input_pathname rel (''https://hostname/'' @ referenceValue (constructor ref))
          = Some (CHR ''/'' # ref)"
    using input_pathname_unchanged [OF assms(1,2)]
    by (simp only: constructor_def LiteralDocumentReference.simps)
  then show ?thesis using assms(3) by (rule parse_Inr_intro)
qed

lemma parse_unchanged_elim:
  assumes "url_unchanged ref" "take 1 ref \<noteq> ''/''" "parse rel (constructor ref) = Inr r"
  shows "matches_grammar ref (res_project_id r) (res_database_id r) (res_document_path r)"
proof -
  from parse_Inr_elim [OF assms(3)] obtain s where
    s: "input_pathname rel (''https://hostname/'' @ referenceValue (constructor ref)) = Some (CHR ''/'' # s)"
    and m: "matches_grammar s (res_project_id r) (res_database_id r) (res_document_path r)"
    by blast
  have "input_pathname rel (''https://hostname/'' @ referenceValue (constructor ref))
          = Some (CHR ''/'' # ref)"
    using input_pathname_unchanged [OF assms(1,2)]
    by (simp only: constructor_def LiteralDocumentReference.simps)
  with s have "s = ref" by simp
  with m show ?thesis by simp
qed

lemma parse_reference:
  assumes "url_unchanged_segment P" "P \<noteq> []" "url_unchanged_segment D" "D \<noteq> []"
    "url_unchanged dp" "[] \<notin> set (js_split (CHR ''/'') dp)"
  shows "parse rel (constructor (''projects/'' @ P @ ''/databases/'' @ D @ ''/documents/'' @ dp))
           = Inr \<lparr> res_project_id = P, res_database_id = D, res_document_path = dp \<rparr>"
proof -
  have "dp \<noteq> []" using assms(6) by auto
  then have "matches_grammar (''projects/'' @ P @ ''/databases/'' @ D @ ''/documents/'' @ dp) P D dp"
    using assms by (simp add: matches_grammar_def url_unchanged_segment_no_slash)
  moreover have "take 1 (''projects/'' @ P @ ''/databases/'' @ D @ ''/documents/'' @ dp) \<noteq> ''/''"
    by simp
  ultimately show ?thesis
    using url_unchanged_reference [OF assms(1,3,5)] by (intro parse_unchanged)
qed

section \<open>Evaluation at concrete references\<close>

text \<open>
  None of the pathnames below starts with \<open>//\<close>, so the parameter \<open>scheme_relative\<close> plays no
  part in them; the closed statements further down take \<open>Map.empty\<close> for it.
\<close>

lemmas unchanged_eval =
  url_unchanged_def url_unchanged_segment_def url_unchanged_char_def path_percent_encode_set_def
  query_percent_encode_set_def c0_control_percent_encode_set_def single_dot_segment_def
  double_dot_segment_def

lemma pathname_not_a_valid_path:
  "input_pathname rel (''https://hostname/'' @ referenceValue (constructor ''not-a-valid-path''))
     = Some ''/not-a-valid-path''"
  by (simp add: constructor_def pathname_eval)

lemma pathname_no_document_path:
  "input_pathname rel (''https://hostname/'' @ referenceValue (constructor ''projects/p/databases/d/documents''))
     = Some ''/projects/p/databases/d/documents''"
  by (simp add: constructor_def pathname_eval)

lemma match_not_a_valid_path: "match_parts pattern ''/not-a-valid-path'' = None"
  by (simp add: pattern_def)

lemma match_no_document_path:
  "match_parts pattern ''/projects/p/databases/d/documents''
     = Some [(''project_id'', Some ''p''), (''database_id'', Some ''d''), (''document_path'', None)]"
  by (simp add: pattern_def)

lemma parse_users_posts:
  "parse rel (constructor ''projects/p1/databases/(default)/documents/users/u1/posts/p2'')
     = Inr \<lparr> res_project_id = ''p1'', res_database_id = ''(default)'',
             res_document_path = ''users/u1/posts/p2'' \<rparr>"
  using parse_reference [of "''p1''" "''(default)''" "''users/u1/posts/p2''"]
  by (simp add: unchanged_eval)

lemma parse_solo:
  "parse rel (constructor ''projects/p/databases/d/documents/solo'')
     = Inr \<lparr> res_project_id = ''p'', res_database_id = ''d'', res_document_path = ''solo'' \<rparr>"
  using parse_reference [of "''p''" "''d''" "''solo''"]
  by (simp add: unchanged_eval)

lemma parse_cities_LA:
  "parse rel (constructor ''projects/my-proj/databases/(default)/documents/cities/LA'')
     = Inr \<lparr> res_project_id = ''my-proj'', res_database_id = ''(default)'',
             res_document_path = ''cities/LA'' \<rparr>"
  using parse_reference [of "''my-proj''" "''(default)''" "''cities/LA''"]
  by (simp add: unchanged_eval)

lemma parse_c_i:
  "parse rel (constructor ''projects/p/databases/d/documents/c/i'')
     = Inr \<lparr> res_project_id = ''p'', res_database_id = ''d'', res_document_path = ''c/i'' \<rparr>"
  using parse_reference [of "''p''" "''d''" "''c/i''"]
  by (simp add: unchanged_eval)

lemma pathname_Los_Angeles:
  "input_pathname rel (''https://hostname/'' @ referenceValue
      (constructor ''projects/my-proj/databases/(default)/documents/cities/Los Angeles''))
     = Some (CHR ''/'' #
         ''projects/my-proj/databases/(default)/documents/cities/Los%20Angeles'')"
  by (simp add: constructor_def pathname_eval)



lemma pathname_query:
  "input_pathname rel (''https://hostname/'' @ referenceValue
      (constructor ''projects/p/databases/d/documents/c/i?x=1''))
     = Some (CHR ''/'' # ''projects/p/databases/d/documents/c/i'')"
  by (simp add: constructor_def pathname_eval)

section \<open>The URL parser on segments that it rewrites\<close>

lemma path_state_piece:
  assumes "list_all (\<lambda>c. c \<noteq> CHR ''/'' \<and> c \<noteq> CHR 0x5C \<and> c \<noteq> CHR ''?'' \<and> c \<noteq> CHR ''#'') q"
  shows "path_state (q @ rest) pth buffer
           = path_state rest pth
               (buffer @ concat (map (utf8_percent_encode path_percent_encode_set) q))"
  using assms by (induction q arbitrary: buffer) simp_all

lemma path_state_pieces:
  assumes "qs \<noteq> []"
    and "list_all (\<lambda>q. list_all (\<lambda>c. c \<noteq> CHR ''/'' \<and> c \<noteq> CHR 0x5C \<and> c \<noteq> CHR ''?'' \<and>
                                   c \<noteq> CHR ''#'') q \<and>
           \<not> single_dot_segment (concat (map (utf8_percent_encode path_percent_encode_set) q)) \<and>
           \<not> double_dot_segment (concat (map (utf8_percent_encode path_percent_encode_set) q)))
         qs"
  shows "path_state (js_join ''/'' qs) pth []
           = pth @ map (\<lambda>q. concat (map (utf8_percent_encode path_percent_encode_set) q)) qs"
  using assms
proof (induction qs arbitrary: pth)
  case Nil
  then show ?case by simp
next
  case (Cons x xs)
  let ?e = "\<lambda>q. concat (map (utf8_percent_encode path_percent_encode_set) q)"
  from Cons.prems have x:
    "list_all (\<lambda>c. c \<noteq> CHR ''/'' \<and> c \<noteq> CHR 0x5C \<and> c \<noteq> CHR ''?'' \<and> c \<noteq> CHR ''#'') x"
    "\<not> single_dot_segment (?e x)" "\<not> double_dot_segment (?e x)"
    by simp_all
  show ?case
  proof (cases xs)
    case Nil
    have "path_state (x @ []) pth [] = path_state [] pth ([] @ ?e x)"
      using x(1) by (rule path_state_piece)
    with Nil x show ?thesis by (simp add: path_end_def)
  next
    case (Cons y ys)
    have "path_state (x @ CHR ''/'' # js_join ''/'' xs) pth []
            = path_state (CHR ''/'' # js_join ''/'' xs) pth ([] @ ?e x)"
      using x(1) by (rule path_state_piece)
    also have "\<dots> = path_state (js_join ''/'' xs) (pth @ [?e x]) []"
      using x by (simp add: path_segment_end_def)
    also have "\<dots> = (pth @ [?e x]) @ map ?e xs"
      using Cons.IH [of "pth @ [?e x]"] Cons.prems Cons by simp
    finally show ?thesis using Cons by simp
  qed
qed

lemma remove_tab_or_newline_append:
  "remove_tab_or_newline (a @ b) = remove_tab_or_newline a @ remove_tab_or_newline b"
  by (simp add: remove_tab_or_newline_def)

lemma remove_tab_or_newline_slash: "remove_tab_or_newline ''/'' = ''/''"
  by (simp add: remove_tab_or_newline_def ascii_tab_or_newline_def)

lemma remove_tab_or_newline_join:
  "remove_tab_or_newline (js_join ''/'' ps) = js_join ''/'' (map remove_tab_or_newline ps)"
proof (induction ps)
  case Nil
  then show ?case by (simp add: remove_tab_or_newline_def)
next
  case (Cons x xs)
  show ?case
  proof (cases xs)
    case Nil
    then show ?thesis by simp
  next
    case (Cons y ys)
    have "remove_tab_or_newline (x @ ''/'' @ js_join ''/'' xs)
            = remove_tab_or_newline x @ ''/'' @ js_join ''/'' (map remove_tab_or_newline xs)"
      by (simp only: remove_tab_or_newline_append remove_tab_or_newline_slash Cons.IH)
    with Cons show ?thesis by simp
  qed
qed

lemma strip_kept:
  assumes "list_all (\<lambda>c. \<not> c0_control_or_space c) (take 1 (rev ref))"
  shows "rev (dropWhile c0_control_or_space (rev ref)) = ref"
proof -
  have "dropWhile c0_control_or_space (rev ref) = rev ref"
    using assms by (cases "rev ref") simp_all
  then show ?thesis by simp
qed

lemma url_pathname_pieces:
  assumes "ps \<noteq> []"
    and "list_all url_encodes_segment ps"
    and "list_all (\<lambda>c. \<not> c0_control_or_space c) (take 1 (rev (js_join ''/'' ps)))"
  shows "url_pathname (''https://hostname/'' @ js_join ''/'' ps)
           = Some (CHR ''/'' # js_join ''/'' (map url_segment_image ps))"
proof -
  let ?qs = "map remove_tab_or_newline ps"
  let ?e = "\<lambda>q. concat (map (utf8_percent_encode path_percent_encode_set) q)"
  have "list_all (\<lambda>q. list_all (\<lambda>c. c \<noteq> CHR ''/'' \<and> c \<noteq> CHR 0x5C \<and> c \<noteq> CHR ''?'' \<and>
                                   c \<noteq> CHR ''#'') q \<and>
           \<not> single_dot_segment (?e q) \<and> \<not> double_dot_segment (?e q)) ?qs"
    using assms(2)
    by (auto simp: list_all_iff url_encodes_segment_def url_segment_image_def
        remove_tab_or_newline_def)
  moreover have "?qs \<noteq> []" using assms(1) by simp
  ultimately have "path_state (js_join ''/'' ?qs) [] [] = [] @ map ?e ?qs"
    by (intro path_state_pieces)
  then have "path_state (remove_tab_or_newline (js_join ''/'' ps)) [] []
               = map url_segment_image ps"
    by (simp add: remove_tab_or_newline_join url_segment_image_def comp_def)
  then have "serialize_path
               (path_state (remove_tab_or_newline
                  (rev (dropWhile c0_control_or_space (rev (js_join ''/'' ps))))) [] [])
               = CHR ''/'' # js_join ''/'' (map url_segment_image ps)"
    using assms(1) by (simp add: strip_kept [OF assms(3)] serialize_path_join)
  then show ?thesis by (simp only: url_pathname_program_input)
qed

section \<open>What a rewritten segment is made of\<close>

lemma hex_digit_unchanged: "n < 16 \<Longrightarrow> url_unchanged_char (hex_digit n)"
proof -
  assume "n < 16"
  then have digit: "hex_digit n \<in> set ''0123456789ABCDEF''"
    unfolding hex_digit_def by (intro nth_mem) simp
  have "\<forall>c\<in>set ''0123456789ABCDEF''. url_unchanged_char c"
    by (simp add: url_unchanged_char_def path_percent_encode_set_def
        query_percent_encode_set_def c0_control_percent_encode_set_def)
  then show ?thesis using digit by (rule bspec)
qed

lemma percent_encode_unchanged: "list_all url_unchanged_char (percent_encode c)"
proof -
  have "(of_char c :: nat) < 256" by simp
  then have "(of_char c :: nat) div 16 < 16" by arith
  moreover have "(of_char c :: nat) mod 16 < 16" by simp
  moreover have "url_unchanged_char (CHR ''%'')"
    by (simp add: url_unchanged_char_def path_percent_encode_set_def
        query_percent_encode_set_def c0_control_percent_encode_set_def)
  ultimately show ?thesis by (simp add: percent_encode_def hex_digit_unchanged)
qed

lemma utf8_percent_encode_unchanged:
  "c \<noteq> CHR ''/'' \<Longrightarrow> c \<noteq> CHR 0x5C \<Longrightarrow>
     list_all url_unchanged_char (utf8_percent_encode path_percent_encode_set c)"
  by (simp add: utf8_percent_encode_def percent_encode_unchanged url_unchanged_char_def)

lemma url_segment_image_chars:
  assumes "list_all (\<lambda>c. c \<noteq> CHR ''/'' \<and> c \<noteq> CHR 0x5C \<and> c \<noteq> CHR ''?'' \<and> c \<noteq> CHR ''#'') p"
  shows "list_all url_unchanged_char (url_segment_image p)"
  using assms
  by (induction p)
    (simp_all add: url_segment_image_def remove_tab_or_newline_def utf8_percent_encode_unchanged)

lemma url_encodes_segment_image:
  "url_encodes_segment p \<Longrightarrow> url_unchanged_segment (url_segment_image p)"
  by (simp add: url_encodes_segment_def url_unchanged_segment_def url_segment_image_chars)

lemma url_segment_image_unchanged:
  assumes "url_unchanged_segment s"
  shows "url_segment_image s = s"
proof -
  have c: "\<forall>c\<in>set s. url_unchanged_char c"
    using assms by (simp add: url_unchanged_segment_def list_all_iff)
  then have "\<forall>c\<in>set s. \<not> ascii_tab_or_newline c"
    using url_unchanged_char_not_c0 tab_or_newline_is_c0 by blast
  then have "remove_tab_or_newline s = s" by (rule remove_tab_or_newline_id)
  moreover have "concat (map (utf8_percent_encode path_percent_encode_set) s) = s"
    using c by (induction s) (simp_all add: url_unchanged_char_encode)
  ultimately show ?thesis by (simp add: url_segment_image_def)
qed

lemma url_unchanged_encodes:
  assumes "url_unchanged_segment s"
  shows "url_encodes_segment s"
proof -
  have "\<forall>c\<in>set s. url_unchanged_char c"
    using assms(1) by (simp add: url_unchanged_segment_def list_all_iff)
  then have "list_all (\<lambda>c. c \<noteq> CHR ''/'' \<and> c \<noteq> CHR 0x5C \<and> c \<noteq> CHR ''?'' \<and> c \<noteq> CHR ''#'') s"
    using url_unchanged_char_not_slash url_unchanged_char_not_query
      url_unchanged_char_not_fragment by (simp add: list_all_iff)
  with assms show ?thesis
    by (simp add: url_encodes_segment_def url_segment_image_unchanged url_unchanged_segment_def)
qed

lemma url_unchanged_join:
  assumes "segs \<noteq> []" "list_all url_unchanged_segment segs"
  shows "url_unchanged (js_join ''/'' segs)"
proof -
  have "\<forall>s\<in>set segs. CHR ''/'' \<notin> set s"
    using assms(2) by (simp add: list_all_iff url_unchanged_segment_no_slash)
  with assms(1) have "js_split (CHR ''/'') (js_join ''/'' segs) = segs" by (rule js_split_join)
  with assms(2) show ?thesis by (simp only: url_unchanged_def)
qed

lemma input_pathname_pieces:
  assumes "ps \<noteq> []" "list_all url_encodes_segment ps"
    and "list_all (\<lambda>c. \<not> c0_control_or_space c) (take 1 (rev (js_join ''/'' ps)))"
    and "take 1 (js_join ''/'' (map url_segment_image ps)) \<noteq> ''/''"
  shows "input_pathname rel (''https://hostname/'' @ js_join ''/'' ps)
           = Some (CHR ''/'' # js_join ''/'' (map url_segment_image ps))"
proof -
  let ?t = "js_join ''/'' (map url_segment_image ps)"
  have first: "url_pathname (''https://hostname/'' @ js_join ''/'' ps) = Some (CHR ''/'' # ?t)"
    using assms(1-3) by (rule url_pathname_pieces)
  have "list_all url_unchanged_segment (map url_segment_image ps)"
    using assms(2) by (simp add: list_all_iff url_encodes_segment_image)
  then have "url_unchanged ?t"
    using assms(1) by (intro url_unchanged_join) simp_all
  then have "canonicalizePathname rel (CHR ''/'' # ?t) = Some (CHR ''/'' # ?t)"
    using assms(4) by (rule canonicalizePathname_unchanged)
  with first show ?thesis by (simp only: input_pathname_def option.case)
qed

lemma take_1_rev: "xs \<noteq> [] \<Longrightarrow> take 1 (rev xs) = [last xs]"
  by (cases xs rule: rev_cases) simp_all

lemma js_join_reference:
  assumes "segs \<noteq> []"
  shows "js_join ''/'' (''projects'' # P # ''databases'' # D # ''documents'' # segs)
           = ''projects/'' @ P @ ''/databases/'' @ D @ ''/documents/'' @ js_join ''/'' segs"
  using assms by (simp add: js_join_Cons)

lemma parse_encoded_reference:
  assumes "url_encodes_segment P" "url_segment_image P \<noteq> []"
    and "url_encodes_segment D" "url_segment_image D \<noteq> []"
    and "segs \<noteq> []" "list_all url_unchanged_segment segs" "[] \<notin> set segs"
  shows "parse rel (constructor
           (''projects/'' @ P @ ''/databases/'' @ D @ ''/documents/'' @ js_join ''/'' segs))
         = Inr \<lparr> res_project_id = url_segment_image P, res_database_id = url_segment_image D,
                 res_document_path = js_join ''/'' segs \<rparr>"
proof -
  let ?ps = "''projects'' # P # ''databases'' # D # ''documents'' # segs"
  let ?ref = "''projects/'' @ P @ ''/databases/'' @ D @ ''/documents/'' @ js_join ''/'' segs"
  let ?t = "''projects/'' @ url_segment_image P @ ''/databases/'' @ url_segment_image D
              @ ''/documents/'' @ js_join ''/'' segs"
  have ref: "js_join ''/'' ?ps = ?ref" using assms(5) by (rule js_join_reference)
  have fixed: "url_segment_image ''projects'' = ''projects''"
    "url_segment_image ''databases'' = ''databases''"
    "url_segment_image ''documents'' = ''documents''"
    by (simp_all add: url_segment_image_unchanged url_unchanged_fixed)
  have "map url_segment_image segs = segs"
    using assms(6) by (induction segs) (simp_all add: url_segment_image_unchanged)
  then have img: "js_join ''/'' (map url_segment_image ?ps) = ?t"
    using assms(5) by (simp add: fixed js_join_Cons)
  have enc: "list_all url_encodes_segment ?ps"
    using assms(1,3,6) url_unchanged_fixed
    by (simp add: list_all_iff url_unchanged_encodes)
  have "last segs \<in> set segs" using assms(5) by simp
  then have "url_unchanged_segment (last segs)" "last segs \<noteq> []"
    using assms(6,7) by (auto simp: list_all_iff)
  then have "\<not> c0_control_or_space (last (last segs))"
    by (simp add: url_unchanged_segment_def list_all_iff url_unchanged_char_not_c0)
  moreover have "js_join ''/'' segs = js_join ''/'' (butlast segs) @ ''/'' @ last segs
                   \<or> js_join ''/'' segs = last segs"
  proof (cases "2 \<le> length segs")
    case True
    then show ?thesis using js_join_butlast_last [of segs "''/''"] by simp
  next
    case False
    with assms(5) obtain x where "segs = [x]" by (cases segs; cases "tl segs") auto
    then show ?thesis by simp
  qed
  then have "last (js_join ''/'' segs) = last (last segs)" "js_join ''/'' segs \<noteq> []"
    using \<open>last segs \<noteq> []\<close> by auto
  then have "last ?ref = last (last segs)" by simp
  moreover have "take 1 (rev ?ref) = [last ?ref]" by (rule take_1_rev) simp
  ultimately have tail: "list_all (\<lambda>c. \<not> c0_control_or_space c) (take 1 (rev (js_join ''/'' ?ps)))"
    unfolding ref by (simp only: list.pred_inject simp_thms)
  have "take 1 (js_join ''/'' (map url_segment_image ?ps)) \<noteq> ''/''"
    unfolding img by simp
  with tail enc have "input_pathname rel (''https://hostname/'' @ js_join ''/'' ?ps)
           = Some (CHR ''/'' # js_join ''/'' (map url_segment_image ?ps))"
    by (intro input_pathname_pieces) simp_all
  then have pn: "input_pathname rel (''https://hostname/'' @ referenceValue (constructor ?ref))
           = Some (CHR ''/'' # ?t)"
    unfolding ref img by (simp only: constructor_def LiteralDocumentReference.simps)
  have "\<forall>s\<in>set segs. CHR ''/'' \<notin> set s"
    using assms(6) by (simp add: list_all_iff url_unchanged_segment_no_slash)
  with assms(5) have split: "js_split (CHR ''/'') (js_join ''/'' segs) = segs"
    by (rule js_split_join)
  have "js_join ''/'' segs \<noteq> []"
    using assms(5,7) by (cases segs; cases "tl segs") auto
  then have "matches_grammar ?t (url_segment_image P) (url_segment_image D) (js_join ''/'' segs)"
    using assms(1-4,7) split
    by (simp add: matches_grammar_def url_encodes_segment_image url_unchanged_segment_no_slash)
  with pn show ?thesis by (rule parse_Inr_intro)
qed

section \<open>Strings that the URL parser only percent-encodes\<close>












section \<open>Evaluation at references that are percent-encoded\<close>

lemmas encodes_eval =
  url_encodes_segment_def url_segment_image_def remove_tab_or_newline_def
  ascii_tab_or_newline_def utf8_percent_encode_def percent_encode_def hex_digit_def
  url_unchanged_def url_unchanged_segment_def url_unchanged_char_def path_percent_encode_set_def
  query_percent_encode_set_def c0_control_percent_encode_set_def single_dot_segment_def
  double_dot_segment_def




lemma pathname_posts_Los_Angeles:
  "input_pathname rel (''https://hostname/'' @ referenceValue
      (constructor ''projects/p1/databases/(default)/documents/users/u1/posts/Los Angeles''))
     = Some (CHR ''/'' #
         ''projects/p1/databases/(default)/documents/users/u1/posts/Los%20Angeles'')"
  by (simp add: constructor_def pathname_eval)

section \<open>Getter calls and the state\<close>

lemma RegExpBuiltinExec_plain:
  "\<not> global R \<Longrightarrow> \<not> sticky R \<Longrightarrow> RegExpBuiltinExec R S = (match_parts (source R) S, R)"
  by (simp add: RegExpBuiltinExec_def)

lemma pattern_exec_this_object:
  "this_object (snd (pattern_exec rel input s)) = this_object s"
  by (simp add: pattern_exec_def split: option.splits prod.splits)

lemma snd_parse_in:
  "snd (parse_in rel s)
     = snd (pattern_exec rel (''https://hostname/'' @ referenceValue (this_object s)) s)"
  by (simp add: parse_in_def split: option.splits prod.splits)

lemma snd_call: "snd (call rel a s) = snd (parse_in rel s)"
  by (cases a) (simp_all add: Let_def split: prod.splits sum.splits)

lemma call_this_object: "this_object (snd (call rel a s)) = this_object s"
  by (simp only: snd_call snd_parse_in pattern_exec_this_object)

lemma calls_this_object: "this_object (snd (calls rel as s)) = this_object s"
proof (induction as arbitrary: s)
  case Nil
  then show ?case by simp
next
  case (Cons a as)
  obtain outcome s' where c: "call rel a s = (outcome, s')" by (cases "call rel a s")
  obtain outcomes s'' where cs: "calls rel as s' = (outcomes, s'')" by (cases "calls rel as s'")
  have "this_object s' = this_object s" using call_this_object [of rel a s] c by simp
  moreover have "this_object s'' = this_object s'" using Cons.IH [of s'] cs by simp
  ultimately show ?case using c cs by simp
qed

lemma pattern_exec_initialized:
  assumes "pattern_as_initialized s"
  shows "pattern_exec rel input s = (exec rel pattern input, s)"
proof -
  have "RegExpBuiltinExec (static_pattern s) S = (match_parts pattern S, static_pattern s)" for S
    using assms by (simp add: pattern_as_initialized_def RegExpBuiltinExec_plain)
  then show ?thesis
    by (simp add: pattern_exec_def exec_def split: option.splits)
qed

lemma parse_in_initialized:
  assumes "pattern_as_initialized s"
  shows "parse_in rel s = (parse rel (this_object s), s)"
  by (simp add: parse_in_def parse_def pattern_exec_initialized [OF assms] split: option.splits)

lemma call_initialized:
  assumes "pattern_as_initialized s"
  shows "call rel a s = (get rel a (this_object s), s)"
  by (cases a)
    (simp_all add: parse_in_initialized [OF assms] get_eval Let_def split: sum.splits)

lemma calls_initialized:
  assumes "pattern_as_initialized s"
  shows "calls rel as s = (map (\<lambda>a. get rel a (this_object s)) as, s)"
  by (induction as) (simp_all add: call_initialized [OF assms])

lemma new_pattern_as_initialized: "pattern_as_initialized (new_LiteralDocumentReference value)"
  by (simp add: pattern_as_initialized_def new_LiteralDocumentReference_def new_URLPattern_def)

text \<open>
  The state has room for what the getters do not do. Had the expression of the pattern
  the flag \<open>g\<close>, a getter would write \<open>lastIndex\<close> and the next call would read it: called
  twice on a well-formed reference, \<open>path\<close> would succeed and then throw.
\<close>

lemma global_flag_breaks_repetition:
  "fst (calls rel [Path, Path]
         \<lparr> this_object = constructor ''projects/p/databases/d/documents/c/i'',
           static_pattern = (new_URLPattern pattern)\<lparr> global := True \<rparr> \<rparr>)
     = [Inr ''c/i'', Inl (Error ''Invalid document path. Path does not match pattern.'')]"
proof -
  let ?p = "''/projects/p/databases/d/documents/c/i''"
  have pn: "input_pathname rel
      (''https://hostname/'' @ referenceValue (constructor ''projects/p/databases/d/documents/c/i''))
        = Some ?p"
    using input_pathname_unchanged [of "''projects/p/databases/d/documents/c/i''" rel]
    by (simp add: unchanged_eval constructor_def)
  have m: "match_parts pattern ?p
      = Some [(''project_id'', Some ''p''), (''database_id'', Some ''d''),
              (''document_path'', Some ''c/i'')]"
    by (simp add: pattern_def)
  show ?thesis
    using pn m
    by (simp add: parse_in_def pattern_exec_def RegExpBuiltinExec_def new_URLPattern_def
        group_def)
qed

section \<open>Values of the type FirestoreFieldValue\<close>

lemma property_Undefined: "property Undefined key = Undefined"
  by simp

lemma scalar_is_FirestoreFieldValue:
  "is_scalar_FirestoreFieldValue v \<Longrightarrow> is_FirestoreFieldValue v"
  by (subst is_FirestoreFieldValue.simps) simp

lemma arrayValue_is_FirestoreFieldValue:
  assumes "property (property v ''arrayValue'') ''values'' = Array elements"
    and "list_all is_FirestoreFieldValue elements"
  shows "is_FirestoreFieldValue v"
  using assms by (subst is_FirestoreFieldValue.simps) simp

lemma mapValue_is_FirestoreFieldValue:
  assumes "property (property v ''mapValue'') ''fields'' = Object entries"
    and "list_all (\<lambda>entry. is_FirestoreFieldValue (snd entry)) entries"
  shows "is_FirestoreFieldValue v"
  using assms by (subst is_FirestoreFieldValue.simps) simp

lemma is_FirestoreFieldValue_cases:
  assumes "is_FirestoreFieldValue v"
  shows "is_scalar_FirestoreFieldValue v \<or>
         (\<exists>entries. property (property v ''mapValue'') ''fields'' = Object entries) \<or>
         (\<exists>elements. property (property v ''arrayValue'') ''values'' = Array elements)"
  using assms
  by (subst (asm) is_FirestoreFieldValue.simps) (auto split: js_value.splits)

lemma scalar_carries:
  assumes "is_scalar_FirestoreFieldValue v"
  shows "\<exists>tag. tag \<in> set variant_tags \<and> carries v tag"
proof -
  have u: "\<not> is_string (Undefined :: 'n js_value)" "\<not> is_number (Undefined :: 'n js_value)"
    "\<not> is_boolean (Undefined :: 'n js_value)" "\<not> is_null (Undefined :: 'n js_value)"
    "\<not> is_geoPoint (Undefined :: 'n js_value)"
    by (simp_all add: is_geoPoint_def)
  from assms consider
      "is_string (property v ''stringValue'')" | "is_number (property v ''integerValue'')"
    | "is_number (property v ''doubleValue'')" | "is_boolean (property v ''booleanValue'')"
    | "is_null (property v ''nullValue'')" | "is_string (property v ''timestampValue'')"
    | "is_geoPoint (property v ''geoPointValue'')" | "is_string (property v ''referenceValue'')"
    unfolding is_scalar_FirestoreFieldValue_def by blast
  then show ?thesis
  proof cases
    case 1 with u have "carries v ''stringValue''" unfolding carries_def by metis
    then show ?thesis unfolding variant_tags_def by (metis list.set_intros)
  next
    case 2 with u have "carries v ''integerValue''" unfolding carries_def by metis
    then show ?thesis unfolding variant_tags_def by (metis list.set_intros)
  next
    case 3 with u have "carries v ''doubleValue''" unfolding carries_def by metis
    then show ?thesis unfolding variant_tags_def by (metis list.set_intros)
  next
    case 4 with u have "carries v ''booleanValue''" unfolding carries_def by metis
    then show ?thesis unfolding variant_tags_def by (metis list.set_intros)
  next
    case 5 with u have "carries v ''nullValue''" unfolding carries_def by metis
    then show ?thesis unfolding variant_tags_def by (metis list.set_intros)
  next
    case 6 with u have "carries v ''timestampValue''" unfolding carries_def by metis
    then show ?thesis unfolding variant_tags_def by (metis list.set_intros)
  next
    case 7 with u have "carries v ''geoPointValue''" unfolding carries_def by metis
    then show ?thesis unfolding variant_tags_def by (metis list.set_intros)
  next
    case 8 with u have "carries v ''referenceValue''" unfolding carries_def by metis
    then show ?thesis unfolding variant_tags_def by (metis list.set_intros)
  qed
qed

lemma nested_property_carries:
  "property (property v tag) key \<noteq> Undefined \<Longrightarrow> carries v tag"
  unfolding carries_def using property_Undefined by metis

lemma is_FirestoreFieldValue_carries:
  assumes "is_FirestoreFieldValue v"
  shows "\<exists>tag. tag \<in> set variant_tags \<and> carries v tag"
proof -
  from is_FirestoreFieldValue_cases [OF assms] consider
      "is_scalar_FirestoreFieldValue v"
    | entries where "property (property v ''mapValue'') ''fields'' = Object entries"
    | elements where "property (property v ''arrayValue'') ''values'' = Array elements"
    by blast
  then show ?thesis
  proof cases
    case 1
    then show ?thesis by (rule scalar_carries)
  next
    case 2
    then have "property (property v ''mapValue'') ''fields'' \<noteq> Undefined" by simp
    then have "carries v ''mapValue''" by (rule nested_property_carries)
    then show ?thesis unfolding variant_tags_def by (metis list.set_intros)
  next
    case 3
    then have "property (property v ''arrayValue'') ''values'' \<noteq> Undefined" by simp
    then have "carries v ''arrayValue''" by (rule nested_property_carries)
    then show ?thesis unfolding variant_tags_def by (metis list.set_intros)
  qed
qed

lemma is_FirestoreFieldValue_scalar:
  assumes "is_FirestoreFieldValue v" "\<not> carries v ''mapValue''" "\<not> carries v ''arrayValue''"
  shows "is_scalar_FirestoreFieldValue v"
proof -
  have "property (property v ''mapValue'') ''fields'' = Undefined"
    "property (property v ''arrayValue'') ''values'' = Undefined"
    using assms(2,3) by (simp_all add: carries_def)
  with is_FirestoreFieldValue_cases [OF assms(1)] show ?thesis by auto
qed

lemma nest_array:
  "list_all is_FirestoreFieldValue elements \<Longrightarrow>
     is_FirestoreFieldValue (Object [(''arrayValue'', Object [(''values'', Array elements)])])"
  by (rule arrayValue_is_FirestoreFieldValue [where elements = elements]) simp_all

lemma nest_map:
  "list_all (\<lambda>entry. is_FirestoreFieldValue (snd entry)) entries \<Longrightarrow>
     is_FirestoreFieldValue (Object [(''mapValue'', Object [(''fields'', Object entries)])])"
  by (rule mapValue_is_FirestoreFieldValue [where entries = entries]) simp_all

lemma nest_array_depth:
  "is_FirestoreFieldValue v \<Longrightarrow>
     is_FirestoreFieldValue
       (((\<lambda>x. Object [(''arrayValue'', Object [(''values'', Array [x])])]) ^^ n) v)"
  by (induction n) (simp_all add: nest_array)

lemma nest_map_depth:
  "is_FirestoreFieldValue v \<Longrightarrow>
     is_FirestoreFieldValue
       (((\<lambda>x. Object [(''mapValue'', Object [(''fields'', Object [(key, x)])])]) ^^ n) v)"
  by (induction n) (simp_all add: nest_map)

lemma variant_tags_ten: "length variant_tags = 10 \<and> distinct variant_tags"
  by (simp add: variant_tags_def)

lemma null_is_FirestoreFieldValue:
  "is_FirestoreFieldValue (Object [(''nullValue'', Null)])"
  by (rule scalar_is_FirestoreFieldValue) (simp add: is_scalar_FirestoreFieldValue_def)

lemma string_is_FirestoreFieldValue:
  "is_FirestoreFieldValue (Object [(''stringValue'', String s)])"
  by (rule scalar_is_FirestoreFieldValue) (simp add: is_scalar_FirestoreFieldValue_def)

section \<open>The accessors on well-formed references\<close>

text \<open>
  C1, as the code has it. Let \<open>P\<close>, \<open>D\<close>, \<open>C\<close> and \<open>I\<close> be non-empty segments that the URL
  parser leaves as they are: made of characters outside the path percent-encode set other
  than the slash and the backslash, and not dot segments. Then on
  \<open>projects/P/databases/D/documents/C/I\<close> the getters give \<open>project_id = P\<close>,
  \<open>database_id = D\<close>, \<open>path = C/I\<close>, \<open>id = I\<close> and \<open>collectionPath = C\<close>.
\<close>

theorem accessors_of_reference:
  assumes "url_unchanged_segment P" "P \<noteq> []" "url_unchanged_segment D" "D \<noteq> []"
    "url_unchanged_segment C" "C \<noteq> []" "url_unchanged_segment I" "I \<noteq> []"
  shows "project_id rel (constructor
           (''projects/'' @ P @ ''/databases/'' @ D @ ''/documents/'' @ C @ ''/'' @ I)) = Inr P \<and>
         database_id rel (constructor
           (''projects/'' @ P @ ''/databases/'' @ D @ ''/documents/'' @ C @ ''/'' @ I)) = Inr D \<and>
         path rel (constructor
           (''projects/'' @ P @ ''/databases/'' @ D @ ''/documents/'' @ C @ ''/'' @ I))
             = Inr (C @ ''/'' @ I) \<and>
         document_id rel (constructor
           (''projects/'' @ P @ ''/databases/'' @ D @ ''/documents/'' @ C @ ''/'' @ I)) = Inr I \<and>
         collectionPath rel (constructor
           (''projects/'' @ P @ ''/databases/'' @ D @ ''/documents/'' @ C @ ''/'' @ I)) = Inr C"
proof -
  let ?dp = "C @ ''/'' @ I"
  let ?obj = "constructor (''projects/'' @ P @ ''/databases/'' @ D @ ''/documents/'' @ ?dp)"
  have split: "js_split (CHR ''/'') ?dp = [C, I]"
    using assms(5,7) by (intro js_split_two url_unchanged_segment_no_slash)
  have "url_unchanged ?dp"
    using assms(5,7) by (simp only: url_unchanged_def split list.pred_inject simp_thms)
  moreover have "[] \<notin> set (js_split (CHR ''/'') ?dp)"
    using assms(6,8) by (simp only: split) auto
  ultimately have parse:
    "parse rel ?obj = Inr \<lparr> res_project_id = P, res_database_id = D, res_document_path = ?dp \<rparr>"
    using assms(1-4) by (intro parse_reference)
  then have path: "path rel ?obj = Inr ?dp" by (simp only: path_def sum.case parse_result.simps)
  have "document_id rel ?obj = Inr I"
    using document_id_of_path [OF path] by (simp only: split, simp)
  moreover have "collectionPath rel ?obj = Inr C"
    using collectionPath_of_path [OF path]
    by (simp only: split, simp)
  moreover have "project_id rel ?obj = Inr P"
    using parse by (simp only: project_id_def sum.case parse_result.simps)
  moreover have "database_id rel ?obj = Inr D"
    using parse by (simp only: database_id_def sum.case parse_result.simps)
  ultimately show ?thesis using path by (intro conjI)
qed

text \<open>
  C1, the scenario of the specification: \<open>projects/my-proj/databases/(default)/documents/cities/LA\<close>
  gives \<open>my-proj\<close>, \<open>(default)\<close>, \<open>LA\<close>, \<open>cities\<close> and \<open>cities/LA\<close>.
\<close>

theorem accessors_of_reference_witness:
  "url_unchanged_segment ''my-proj'' \<and> ''my-proj'' \<noteq> [] \<and>
   url_unchanged_segment ''(default)'' \<and> ''(default)'' \<noteq> [] \<and>
   url_unchanged_segment ''cities'' \<and> ''cities'' \<noteq> [] \<and>
   url_unchanged_segment ''LA'' \<and> ''LA'' \<noteq> [] \<and>
   project_id Map.empty (constructor ''projects/my-proj/databases/(default)/documents/cities/LA'')
     = Inr ''my-proj'' \<and>
   database_id Map.empty (constructor ''projects/my-proj/databases/(default)/documents/cities/LA'')
     = Inr ''(default)'' \<and>
   document_id Map.empty (constructor ''projects/my-proj/databases/(default)/documents/cities/LA'')
     = Inr ''LA'' \<and>
   collectionPath Map.empty (constructor ''projects/my-proj/databases/(default)/documents/cities/LA'')
     = Inr ''cities'' \<and>
   path Map.empty (constructor ''projects/my-proj/databases/(default)/documents/cities/LA'')
     = Inr ''cities/LA''"
proof -
  have h: "url_unchanged_segment ''my-proj''" "''my-proj'' \<noteq> []"
    "url_unchanged_segment ''(default)''" "''(default)'' \<noteq> []"
    "url_unchanged_segment ''cities''" "''cities'' \<noteq> []"
    "url_unchanged_segment ''LA''" "''LA'' \<noteq> []"
    by (simp_all add: unchanged_eval)
  from accessors_of_reference [OF h] h show ?thesis by simp
qed

text \<open>
  C1 as stated, for all non-empty segments without \<open>/\<close>, fails: with the document id
  \<open>Los Angeles\<close> the getter \<open>id\<close> gives \<open>Los%20Angeles\<close>, the space percent-encoded by the URL
  parser.
\<close>

theorem accessors_of_reference_counterexample:
  "''my-proj'' \<noteq> [] \<and> CHR ''/'' \<notin> set ''my-proj'' \<and>
   ''(default)'' \<noteq> [] \<and> CHR ''/'' \<notin> set ''(default)'' \<and>
   ''cities'' \<noteq> [] \<and> CHR ''/'' \<notin> set ''cities'' \<and>
   ''Los Angeles'' \<noteq> [] \<and> CHR ''/'' \<notin> set ''Los Angeles'' \<and>
   document_id Map.empty (constructor
     (''projects/'' @ ''my-proj'' @ ''/databases/'' @ ''(default)'' @ ''/documents/'' @
        ''cities'' @ ''/'' @ ''Los Angeles'')) = Inr ''Los%20Angeles'' \<and>
   document_id Map.empty (constructor
     (''projects/'' @ ''my-proj'' @ ''/databases/'' @ ''(default)'' @ ''/documents/'' @
        ''cities'' @ ''/'' @ ''Los Angeles'')) \<noteq> Inr ''Los Angeles''"
proof -
  have "matches_grammar ''projects/my-proj/databases/(default)/documents/cities/Los%20Angeles''
          ''my-proj'' ''(default)'' ''cities/Los%20Angeles''"
    by (simp add: matches_grammar_def)
  with pathname_Los_Angeles
  have "parse Map.empty (constructor ''projects/my-proj/databases/(default)/documents/cities/Los Angeles'')
          = Inr \<lparr> res_project_id = ''my-proj'', res_database_id = ''(default)'',
                  res_document_path = ''cities/Los%20Angeles'' \<rparr>"
    by (rule parse_Inr_intro)
  then have "path Map.empty (constructor ''projects/my-proj/databases/(default)/documents/cities/Los Angeles'')
          = Inr ''cities/Los%20Angeles''"
    using path_of_parse by fastforce
  then have "document_id Map.empty
      (constructor ''projects/my-proj/databases/(default)/documents/cities/Los Angeles'')
          = Inr (last (js_split (CHR ''/'') ''cities/Los%20Angeles''))"
    by (rule document_id_of_path)
  then show ?thesis by simp
qed

section \<open>When the accessors fail\<close>




section \<open>Document id and collection path\<close>

text \<open>
  C3, as the code has it. Let \<open>P\<close> and \<open>D\<close> be segments that the URL parser does nothing to
  but percent-encode, and does not make empty, and let \<open>segs\<close> be one or more non-empty
  segments that it leaves as they are. Then on \<open>projects/P/databases/D/documents/\<close> followed
  by the segments joined by \<open>/\<close>, \<open>id\<close> is the last segment and \<open>collectionPath\<close> is the
  segments before it joined by \<open>/\<close>.
\<close>

theorem id_collectionPath_of_reference:
  assumes "url_encodes_segment P" "url_segment_image P \<noteq> []"
    and "url_encodes_segment D" "url_segment_image D \<noteq> []"
    and "segs \<noteq> []" "list_all url_unchanged_segment segs" "[] \<notin> set segs"
  shows "document_id rel (constructor
           (''projects/'' @ P @ ''/databases/'' @ D @ ''/documents/'' @ js_join ''/'' segs))
             = Inr (last segs) \<and>
         collectionPath rel (constructor
           (''projects/'' @ P @ ''/databases/'' @ D @ ''/documents/'' @ js_join ''/'' segs))
             = Inr (js_join ''/'' (butlast segs))"
proof -
  let ?dp = "js_join ''/'' segs"
  let ?obj = "constructor (''projects/'' @ P @ ''/databases/'' @ D @ ''/documents/'' @ ?dp)"
  have "\<forall>s\<in>set segs. CHR ''/'' \<notin> set s"
    using assms(6) by (simp add: list_all_iff url_unchanged_segment_no_slash)
  with assms(5) have split: "js_split (CHR ''/'') ?dp = segs" by (rule js_split_join)
  have "parse rel ?obj = Inr \<lparr> res_project_id = url_segment_image P,
          res_database_id = url_segment_image D, res_document_path = ?dp \<rparr>"
    using assms by (rule parse_encoded_reference)
  then have p: "path rel ?obj = Inr ?dp" by (simp only: path_def sum.case parse_result.simps)
  have "document_id rel ?obj = Inr (last segs)"
    using document_id_of_path [OF p] by (simp only: split)
  moreover have "collectionPath rel ?obj = Inr (js_join ''/'' (butlast segs))"
    using collectionPath_of_path [OF p] by (simp only: split)
  ultimately show ?thesis by (intro conjI)
qed

text \<open>
  C3 at the example of the specification:
  \<open>projects/p1/databases/(default)/documents/users/u1/posts/p2\<close> has \<open>id = p2\<close> and
  \<open>collectionPath = users/u1/posts\<close>; and so has the same document path under the project
  \<open>my project\<close>, whose space the parser percent-encodes.
\<close>

theorem id_collectionPath_of_reference_witness:
  "url_encodes_segment ''p1'' \<and> url_segment_image ''p1'' \<noteq> [] \<and>
   url_encodes_segment ''(default)'' \<and> url_segment_image ''(default)'' \<noteq> [] \<and>
   url_encodes_segment ''my project'' \<and> url_segment_image ''my project'' \<noteq> [] \<and>
   [''users'', ''u1'', ''posts'', ''p2''] \<noteq> [] \<and>
   list_all url_unchanged_segment [''users'', ''u1'', ''posts'', ''p2''] \<and>
   [] \<notin> set [''users'', ''u1'', ''posts'', ''p2''] \<and>
   document_id Map.empty
     (constructor ''projects/p1/databases/(default)/documents/users/u1/posts/p2'') = Inr ''p2'' \<and>
   collectionPath Map.empty
     (constructor ''projects/p1/databases/(default)/documents/users/u1/posts/p2'')
       = Inr ''users/u1/posts'' \<and>
   document_id Map.empty
     (constructor ''projects/my project/databases/(default)/documents/users/u1/posts/p2'')
       = Inr ''p2'' \<and>
   collectionPath Map.empty
     (constructor ''projects/my project/databases/(default)/documents/users/u1/posts/p2'')
       = Inr ''users/u1/posts''"
proof -
  have P: "url_encodes_segment ''p1''" "url_segment_image ''p1'' \<noteq> []"
    by (simp_all add: encodes_eval)
  have P': "url_encodes_segment ''my project''" "url_segment_image ''my project'' \<noteq> []"
    by (simp_all add: encodes_eval)
  have D: "url_encodes_segment ''(default)''" "url_segment_image ''(default)'' \<noteq> []"
    by (simp_all add: encodes_eval)
  have segs: "[''users'', ''u1'', ''posts'', ''p2''] \<noteq> []"
    "list_all url_unchanged_segment [''users'', ''u1'', ''posts'', ''p2'']"
    "[] \<notin> set [''users'', ''u1'', ''posts'', ''p2'']"
    by (simp_all add: unchanged_eval)
  from id_collectionPath_of_reference [OF P D segs, of Map.empty]
    id_collectionPath_of_reference [OF P' D segs, of Map.empty] P P' D segs
  show ?thesis by simp
qed

text \<open>
  C3 as stated, for every valid reference string with a chain of collections and ids,
  fails: with the last segment \<open>Los Angeles\<close> the getter \<open>id\<close> gives \<open>Los%20Angeles\<close>, which is
  not the last segment of the string.
\<close>

theorem id_collectionPath_of_reference_counterexample:
  "''p1'' \<noteq> [] \<and> CHR ''/'' \<notin> set ''p1'' \<and>
   ''(default)'' \<noteq> [] \<and> CHR ''/'' \<notin> set ''(default)'' \<and>
   ''users'' \<noteq> [] \<and> CHR ''/'' \<notin> set ''users'' \<and>
   ''u1'' \<noteq> [] \<and> CHR ''/'' \<notin> set ''u1'' \<and>
   ''posts'' \<noteq> [] \<and> CHR ''/'' \<notin> set ''posts'' \<and>
   ''Los Angeles'' \<noteq> [] \<and> CHR ''/'' \<notin> set ''Los Angeles'' \<and>
   last [''users'', ''u1'', ''posts'', ''Los Angeles''] = ''Los Angeles'' \<and>
   document_id Map.empty (constructor
     (''projects/'' @ ''p1'' @ ''/databases/'' @ ''(default)'' @ ''/documents/'' @
        js_join ''/'' [''users'', ''u1'', ''posts'', ''Los Angeles''])) = Inr ''Los%20Angeles'' \<and>
   ''Los%20Angeles'' \<noteq> ''Los Angeles''"
proof -
  have "matches_grammar
          ''projects/p1/databases/(default)/documents/users/u1/posts/Los%20Angeles''
          ''p1'' ''(default)'' ''users/u1/posts/Los%20Angeles''"
    by (simp add: matches_grammar_def)
  with pathname_posts_Los_Angeles
  have "parse Map.empty
          (constructor ''projects/p1/databases/(default)/documents/users/u1/posts/Los Angeles'')
          = Inr \<lparr> res_project_id = ''p1'', res_database_id = ''(default)'',
                  res_document_path = ''users/u1/posts/Los%20Angeles'' \<rparr>"
    by (rule parse_Inr_intro)
  then have "path Map.empty
          (constructor ''projects/p1/databases/(default)/documents/users/u1/posts/Los Angeles'')
          = Inr ''users/u1/posts/Los%20Angeles''"
    using path_of_parse by fastforce
  then have "document_id Map.empty
      (constructor ''projects/p1/databases/(default)/documents/users/u1/posts/Los Angeles'')
          = Inr (last (js_split (CHR ''/'') ''users/u1/posts/Los%20Angeles''))"
    by (rule document_id_of_path)
  then show ?thesis by simp
qed

section \<open>The match and the stored string\<close>

text \<open>
  C4, as the code has it. For a stored string that the URL parser leaves as it is and that
  does not start with \<open>/\<close>, an accepted string is exactly \<open>projects/\<close>, the project id, \<open>/databases/\<close>, the database id,
  \<open>/documents/\<close> and the document path: nothing before, between or after the captures is
  dropped.
\<close>

theorem match_anchored:
  assumes "url_unchanged ref" "take 1 ref \<noteq> ''/''" "parse rel (constructor ref) = Inr r"
  shows "ref = ''projects/'' @ res_project_id r @ ''/databases/'' @ res_database_id r @
               ''/documents/'' @ res_document_path r"
  using parse_unchanged_elim [OF assms] by (simp only: matches_grammar_def)

text \<open>
  C4 at \<open>projects/p/databases/d/documents/c/i\<close>.
\<close>

theorem match_anchored_witness:
  "url_unchanged ''projects/p/databases/d/documents/c/i'' \<and>
   take 1 ''projects/p/databases/d/documents/c/i'' \<noteq> ''/'' \<and>
   parse Map.empty (constructor ''projects/p/databases/d/documents/c/i'')
     = Inr \<lparr> res_project_id = ''p'', res_database_id = ''d'', res_document_path = ''c/i'' \<rparr> \<and>
   ''projects/p/databases/d/documents/c/i''
     = ''projects/'' @ ''p'' @ ''/databases/'' @ ''d'' @ ''/documents/'' @ ''c/i''"
proof -
  have h: "url_unchanged ''projects/p/databases/d/documents/c/i''"
    "take 1 ''projects/p/databases/d/documents/c/i'' \<noteq> ''/''"
    by (simp_all add: unchanged_eval)
  from match_anchored [OF h parse_c_i] h parse_c_i show ?thesis by simp
qed

text \<open>
  C4 as stated, for every input string, fails: \<open>projects/p/databases/d/documents/c/i?x=1\<close>
  is accepted with the document path \<open>c/i\<close>; the URL parser takes \<open>x=1\<close> for the query, which the
  pattern lets be anything.
\<close>

theorem match_anchored_counterexample:
  "parse Map.empty (constructor ''projects/p/databases/d/documents/c/i?x=1'')
     = Inr \<lparr> res_project_id = ''p'', res_database_id = ''d'', res_document_path = ''c/i'' \<rparr> \<and>
   ''projects/p/databases/d/documents/c/i?x=1''
     \<noteq> ''projects/'' @ ''p'' @ ''/databases/'' @ ''d'' @ ''/documents/'' @ ''c/i''"
proof -
  have "matches_grammar ''projects/p/databases/d/documents/c/i'' ''p'' ''d'' ''c/i''"
    by (simp add: matches_grammar_def)
  with pathname_query
  have "parse Map.empty (constructor ''projects/p/databases/d/documents/c/i?x=1'')
     = Inr \<lparr> res_project_id = ''p'', res_database_id = ''d'', res_document_path = ''c/i'' \<rparr>"
    by (rule parse_Inr_intro)
  then show ?thesis by simp
qed

section \<open>A document path of one segment\<close>

text \<open>
  C5. When parsing succeeds with a document path of a single segment, \<open>id\<close> is that
  segment: no error, and no check that the segments come in pairs.
\<close>

theorem single_segment_id:
  assumes "path rel this = Inr dp" "CHR ''/'' \<notin> set dp"
  shows "document_id rel this = Inr dp"
proof -
  have "js_split (CHR ''/'') dp = [dp]" using assms(2) by (rule js_split_no_sep)
  with document_id_of_path [OF assms(1)] show ?thesis by simp
qed

text \<open>
  C5 at \<open>projects/p/databases/d/documents/solo\<close>, which parses although its document path
  has one segment.
\<close>

theorem single_segment_id_witness:
  "path Map.empty (constructor ''projects/p/databases/d/documents/solo'') = Inr ''solo'' \<and>
   CHR ''/'' \<notin> set ''solo'' \<and>
   document_id Map.empty (constructor ''projects/p/databases/d/documents/solo'') = Inr ''solo''"
proof -
  have p: "path Map.empty (constructor ''projects/p/databases/d/documents/solo'') = Inr ''solo''"
    using path_of_parse [OF parse_solo] by simp
  have s: "CHR ''/'' \<notin> set ''solo''" by simp
  from single_segment_id [OF p s] p s show ?thesis by simp
qed

section \<open>The variants of a field value\<close>

text \<open>
  C6, as the code has it. The union names ten properties, all different. Every value of
  the type has one of them, so a value that has none is not of the type; a value of the
  type that has neither \<open>mapValue\<close> nor \<open>arrayValue\<close> is of one of the eight members whose
  property type does not mention the union; an array of field values under
  \<open>arrayValue.values\<close> and an object of field values under \<open>mapValue.fields\<close> are field values
  again, and so to any depth \<open>n\<close>.
\<close>

theorem field_value_variants:
  "length variant_tags = 10 \<and> distinct variant_tags \<and>
   (is_FirestoreFieldValue v \<longrightarrow> (\<exists>tag. tag \<in> set variant_tags \<and> carries v tag)) \<and>
   (is_FirestoreFieldValue v \<longrightarrow> \<not> carries v ''mapValue'' \<longrightarrow> \<not> carries v ''arrayValue'' \<longrightarrow>
      is_scalar_FirestoreFieldValue v) \<and>
   (list_all is_FirestoreFieldValue elements \<longrightarrow>
      is_FirestoreFieldValue (Object [(''arrayValue'', Object [(''values'', Array elements)])])) \<and>
   (list_all (\<lambda>entry. is_FirestoreFieldValue (snd entry)) entries \<longrightarrow>
      is_FirestoreFieldValue (Object [(''mapValue'', Object [(''fields'', Object entries)])])) \<and>
   (is_FirestoreFieldValue v \<longrightarrow>
      is_FirestoreFieldValue
        (((\<lambda>x. Object [(''arrayValue'', Object [(''values'', Array [x])])]) ^^ n) v) \<and>
      is_FirestoreFieldValue
        (((\<lambda>x. Object [(''mapValue'', Object [(''fields'', Object [(key, x)])])]) ^^ n) v))"
  using variant_tags_ten is_FirestoreFieldValue_carries [of v]
    is_FirestoreFieldValue_scalar [of v] nest_array [of elements] nest_map [of entries]
    nest_array_depth [where v = v and n = n] nest_map_depth [where v = v and n = n and key = key]
  by blast

text \<open>
  C6 at \<open>{ nullValue: null }\<close>: of the type, with that tag and of a member that does not
  recur; in an array with a string value, in a map, and two arrays deep. \<open>{ bytesValue: "AA==" }\<close>,
  with a property that the union does not name, is not of the type.
\<close>

theorem field_value_variants_witness:
  "is_FirestoreFieldValue (Object [(''nullValue'', Null)] :: int js_value) \<and>
   \<not> carries (Object [(''nullValue'', Null)] :: int js_value) ''mapValue'' \<and>
   \<not> carries (Object [(''nullValue'', Null)] :: int js_value) ''arrayValue'' \<and>
   carries (Object [(''nullValue'', Null)] :: int js_value) ''nullValue'' \<and>
   is_scalar_FirestoreFieldValue (Object [(''nullValue'', Null)] :: int js_value) \<and>
   list_all is_FirestoreFieldValue
     [Object [(''nullValue'', Null)], Object [(''stringValue'', String ''a'')] :: int js_value] \<and>
   is_FirestoreFieldValue
     (Object [(''arrayValue'', Object [(''values'',
        Array [Object [(''nullValue'', Null)],
               Object [(''stringValue'', String ''a'')] :: int js_value])])]) \<and>
   list_all (\<lambda>entry. is_FirestoreFieldValue (snd entry))
     [(''k'', Object [(''nullValue'', Null)] :: int js_value)] \<and>
   is_FirestoreFieldValue
     (Object [(''mapValue'', Object [(''fields'',
        Object [(''k'', Object [(''nullValue'', Null)] :: int js_value)])])]) \<and>
   is_FirestoreFieldValue
     (Object [(''arrayValue'', Object [(''values'', Array
        [Object [(''arrayValue'', Object [(''values'', Array
           [Object [(''nullValue'', Null)] :: int js_value])])]])])]) \<and>
   \<not> is_FirestoreFieldValue (Object [(''bytesValue'', String ''AA=='')] :: int js_value)"
proof -
  let ?null = "Object [(''nullValue'', Null)] :: int js_value"
  let ?str = "Object [(''stringValue'', String ''a'')] :: int js_value"
  have v: "is_FirestoreFieldValue ?null" by (rule null_is_FirestoreFieldValue)
  have m: "\<not> carries ?null ''mapValue''" "\<not> carries ?null ''arrayValue''"
    "carries ?null ''nullValue''"
    by (simp_all add: carries_def)
  have es: "list_all is_FirestoreFieldValue [?null, ?str]"
    by (simp add: null_is_FirestoreFieldValue string_is_FirestoreFieldValue)
  have fs: "list_all (\<lambda>entry. is_FirestoreFieldValue (snd entry)) [(''k'', ?null)]"
    by (simp add: null_is_FirestoreFieldValue)
  have two: "((\<lambda>x. Object [(''arrayValue'', Object [(''values'', Array [x])])]) ^^ 2) ?null
      = Object [(''arrayValue'', Object [(''values'', Array
          [Object [(''arrayValue'', Object [(''values'', Array [?null])])]])])]"
    by (simp add: numeral_2_eq_2)
  have none: "\<not> (\<exists>tag. tag \<in> set variant_tags \<and>
                  carries (Object [(''bytesValue'', String ''AA=='')] :: int js_value) tag)"
    by (simp add: variant_tags_def carries_def)
  from field_value_variants
    [where v = "Object [(''bytesValue'', String ''AA=='')] :: int js_value"] none
  have closed: "\<not> is_FirestoreFieldValue (Object [(''bytesValue'', String ''AA=='')] :: int js_value)"
    by blast
  from field_value_variants
    [where v = ?null and elements = "[?null, ?str]" and entries = "[(''k'', ?null)]" and n = 2
       and key = "''k''"] v m es fs two closed
  show ?thesis by simp
qed

text \<open>
  C6 as stated, with exactly one tag for every value of the type, fails:
  \<open>{ stringValue: "a", integerValue: 1 }\<close> has the property of the first member of the
  union, so it is of the type, and it has two of the ten tags.
\<close>

theorem field_value_variants_counterexample:
  "is_FirestoreFieldValue
     (Object [(''stringValue'', String ''a''), (''integerValue'', Number 1)] :: int js_value) \<and>
   carries (Object [(''stringValue'', String ''a''), (''integerValue'', Number 1)] :: int js_value)
     ''stringValue'' \<and>
   carries (Object [(''stringValue'', String ''a''), (''integerValue'', Number 1)] :: int js_value)
     ''integerValue'' \<and>
   ''stringValue'' \<noteq> ''integerValue''"
proof -
  have "is_FirestoreFieldValue
     (Object [(''stringValue'', String ''a''), (''integerValue'', Number 1)] :: int js_value)"
    by (rule scalar_is_FirestoreFieldValue) (simp add: is_scalar_FirestoreFieldValue_def)
  then show ?thesis by (simp add: carries_def)
qed

section \<open>Getters do not change the object\<close>

text \<open>
  C7. After any sequence of getter calls, failing ones included, \<open>this\<close> is the object it
  was before the calls, so its \<open>referenceValue\<close> is unchanged. With the pattern as the static
  initializer builds it, without the flags \<open>g\<close> and \<open>y\<close>, the calls leave the whole state as
  it was, and the outcome of a getter depends on \<open>referenceValue\<close> alone: two states whose
  objects have the same \<open>referenceValue\<close>, whatever else the objects carry and whatever
  \<open>lastIndex\<close> holds, give the same outcome.
\<close>

theorem getters_leave_reference:
  fixes s :: "'a state" and s' :: "'b state"
  shows "this_object (snd (calls rel as s)) = this_object s \<and>
     (pattern_as_initialized s \<longrightarrow> snd (calls rel as s) = s) \<and>
     (pattern_as_initialized s \<longrightarrow> pattern_as_initialized s' \<longrightarrow>
        referenceValue (this_object s') = referenceValue (this_object s) \<longrightarrow>
        fst (call rel a s') = fst (call rel a s))"
proof (intro conjI impI)
  show "this_object (snd (calls rel as s)) = this_object s" by (rule calls_this_object)
next
  assume "pattern_as_initialized s"
  then show "snd (calls rel as s) = s" by (simp add: calls_initialized)
next
  assume i: "pattern_as_initialized s" "pattern_as_initialized s'"
    and r: "referenceValue (this_object s') = referenceValue (this_object s)"
  have "get rel a (this_object s') = get rel a (this_object s)"
    using r by (rule get_referenceValue)
  then show "fst (call rel a s') = fst (call rel a s)"
    by (simp add: call_initialized i)
qed

text \<open>
  C7 at three calls on an object that fails to parse, and at an object with the same
  \<open>referenceValue\<close> that carries one more field, in a state with another \<open>lastIndex\<close>.
\<close>

theorem getters_leave_reference_witness:
  "pattern_as_initialized (new_LiteralDocumentReference ''not-a-valid-path'') \<and>
   pattern_as_initialized
     \<lparr> this_object = \<lparr> referenceValue = ''not-a-valid-path'', \<dots> = True \<rparr>,
       static_pattern = (new_URLPattern pattern)\<lparr> lastIndex := 7 \<rparr> \<rparr> \<and>
   referenceValue (this_object
     \<lparr> this_object = \<lparr> referenceValue = ''not-a-valid-path'', \<dots> = True \<rparr>,
       static_pattern = (new_URLPattern pattern)\<lparr> lastIndex := 7 \<rparr> \<rparr>)
     = referenceValue (this_object (new_LiteralDocumentReference ''not-a-valid-path'')) \<and>
   this_object (snd (calls Map.empty [Path, Id, Project_id]
       (new_LiteralDocumentReference ''not-a-valid-path'')))
     = this_object (new_LiteralDocumentReference ''not-a-valid-path'') \<and>
   snd (calls Map.empty [Path, Id, Project_id] (new_LiteralDocumentReference ''not-a-valid-path''))
     = new_LiteralDocumentReference ''not-a-valid-path'' \<and>
   fst (call Map.empty Id
     \<lparr> this_object = \<lparr> referenceValue = ''not-a-valid-path'', \<dots> = True \<rparr>,
       static_pattern = (new_URLPattern pattern)\<lparr> lastIndex := 7 \<rparr> \<rparr>)
     = fst (call Map.empty Id (new_LiteralDocumentReference ''not-a-valid-path''))"
proof -
  let ?s = "new_LiteralDocumentReference ''not-a-valid-path''"
  let ?s' = "\<lparr> this_object = \<lparr> referenceValue = ''not-a-valid-path'', \<dots> = True \<rparr>,
               static_pattern = (new_URLPattern pattern)\<lparr> lastIndex := 7 \<rparr> \<rparr>"
  have h: "pattern_as_initialized ?s" "pattern_as_initialized ?s'"
    "referenceValue (this_object ?s') = referenceValue (this_object ?s)"
    by (simp_all add: pattern_as_initialized_def new_LiteralDocumentReference_def
        new_URLPattern_def constructor_def)
  from getters_leave_reference [of Map.empty "[Path, Id, Project_id]" ?s ?s' Id] h
  show ?thesis by (simp only: simp_thms)
qed

section \<open>Getters give the same outcome every time\<close>

text \<open>
  C8. With the pattern as the static initializer builds it, the outcomes of a sequence of
  getter calls are those of the same getters each called alone, in any order and however
  often; a getter called after any sequence of earlier calls gives what it gives when
  called first; and the outcome does not depend on \<open>lastIndex\<close>, the one piece of state that
  a match could carry over to the next.
\<close>

theorem getters_deterministic:
  assumes "pattern_as_initialized s"
  shows "fst (calls rel as s) = map (\<lambda>a. fst (call rel a s)) as \<and>
         fst (call rel a (snd (calls rel before s))) = fst (call rel a s) \<and>
         fst (call rel a (s\<lparr> static_pattern := (static_pattern s)\<lparr> lastIndex := n \<rparr> \<rparr>))
           = fst (call rel a s)"
proof -
  have "pattern_as_initialized (s\<lparr> static_pattern := (static_pattern s)\<lparr> lastIndex := n \<rparr> \<rparr>)"
    using assms by (simp add: pattern_as_initialized_def)
  then have "fst (call rel a (s\<lparr> static_pattern := (static_pattern s)\<lparr> lastIndex := n \<rparr> \<rparr>))
               = get rel a (this_object s)"
    by (simp add: call_initialized)
  then show ?thesis
    using assms by (simp add: calls_initialized call_initialized)
qed

text \<open>
  C8 on a well-formed reference: the same getter called twice with another between, a
  getter called after two other calls, and a getter called with another \<open>lastIndex\<close>.
\<close>

theorem getters_deterministic_witness:
  "pattern_as_initialized
     (new_LiteralDocumentReference ''projects/p/databases/d/documents/c/i'') \<and>
   fst (calls Map.empty [Path, Id, Path]
          (new_LiteralDocumentReference ''projects/p/databases/d/documents/c/i''))
     = map (\<lambda>a. fst (call Map.empty a
          (new_LiteralDocumentReference ''projects/p/databases/d/documents/c/i''))) [Path, Id, Path] \<and>
   fst (call Map.empty Id (snd (calls Map.empty [Project_id, Path]
          (new_LiteralDocumentReference ''projects/p/databases/d/documents/c/i''))))
     = fst (call Map.empty Id
          (new_LiteralDocumentReference ''projects/p/databases/d/documents/c/i'')) \<and>
   fst (call Map.empty Id
          ((new_LiteralDocumentReference ''projects/p/databases/d/documents/c/i'')
             \<lparr> static_pattern :=
                 (static_pattern
                    (new_LiteralDocumentReference ''projects/p/databases/d/documents/c/i''))
                 \<lparr> lastIndex := 7 \<rparr> \<rparr>))
     = fst (call Map.empty Id
          (new_LiteralDocumentReference ''projects/p/databases/d/documents/c/i''))"
proof -
  let ?s = "new_LiteralDocumentReference ''projects/p/databases/d/documents/c/i''"
  have h: "pattern_as_initialized ?s"
    by (simp add: pattern_as_initialized_def new_LiteralDocumentReference_def new_URLPattern_def)
  from getters_deterministic [OF h, of Map.empty "[Path, Id, Path]" Id "[Project_id, Path]" 7] h
  show ?thesis by (simp only: simp_thms)
qed

section \<open>Path, collection path and id together\<close>

text \<open>
  C9. When parsing succeeds with document path \<open>dp\<close>: if \<open>dp\<close> contains a \<open>/\<close> then
  \<open>path = collectionPath + "/" + id\<close>, and if it does not then \<open>collectionPath\<close> is the empty
  string and \<open>id\<close> is \<open>dp\<close>.
\<close>

theorem path_decomposition:
  assumes "path rel this = Inr dp"
  shows "(CHR ''/'' \<in> set dp \<longrightarrow>
            (\<exists>cp i. collectionPath rel this = Inr cp \<and> document_id rel this = Inr i \<and>
                     dp = cp @ ''/'' @ i)) \<and>
         (CHR ''/'' \<notin> set dp \<longrightarrow> collectionPath rel this = Inr [] \<and> document_id rel this = Inr dp)"
proof (intro conjI impI)
  assume "CHR ''/'' \<in> set dp"
  then have "2 \<le> length (js_split (CHR ''/'') dp)" by (rule js_split_length_sep)
  then have "js_join ''/'' (butlast (js_split (CHR ''/'') dp)) @ ''/'' @
               last (js_split (CHR ''/'') dp) = js_join ''/'' (js_split (CHR ''/'') dp)"
    by (rule js_join_butlast_last)
  then have "dp = js_join ''/'' (butlast (js_split (CHR ''/'') dp)) @ ''/'' @
               last (js_split (CHR ''/'') dp)"
    by (simp add: js_join_split)
  with document_id_of_path [OF assms] collectionPath_of_path [OF assms]
  show "\<exists>cp i. collectionPath rel this = Inr cp \<and> document_id rel this = Inr i \<and> dp = cp @ ''/'' @ i"
    by blast
next
  assume "CHR ''/'' \<notin> set dp"
  then have "js_split (CHR ''/'') dp = [dp]" by (rule js_split_no_sep)
  with collectionPath_of_path [OF assms] show "collectionPath rel this = Inr []" by simp
next
  assume "CHR ''/'' \<notin> set dp"
  then have "js_split (CHR ''/'') dp = [dp]" by (rule js_split_no_sep)
  with document_id_of_path [OF assms] show "document_id rel this = Inr dp" by simp
qed

text \<open>
  C9 at a document path of two segments and at one of a single segment.
\<close>

theorem path_decomposition_witness:
  "path Map.empty (constructor ''projects/my-proj/databases/(default)/documents/cities/LA'')
     = Inr ''cities/LA'' \<and>
   CHR ''/'' \<in> set ''cities/LA'' \<and>
   (\<exists>cp i. collectionPath Map.empty (constructor ''projects/my-proj/databases/(default)/documents/cities/LA'')
              = Inr cp \<and>
            document_id Map.empty (constructor ''projects/my-proj/databases/(default)/documents/cities/LA'')
              = Inr i \<and>
            ''cities/LA'' = cp @ ''/'' @ i) \<and>
   path Map.empty (constructor ''projects/p/databases/d/documents/solo'') = Inr ''solo'' \<and>
   CHR ''/'' \<notin> set ''solo'' \<and>
   collectionPath Map.empty (constructor ''projects/p/databases/d/documents/solo'') = Inr [] \<and>
   document_id Map.empty (constructor ''projects/p/databases/d/documents/solo'') = Inr ''solo''"
proof -
  have p: "path Map.empty (constructor ''projects/my-proj/databases/(default)/documents/cities/LA'')
     = Inr ''cities/LA''"
    using path_of_parse [OF parse_cities_LA] by simp
  have s: "CHR ''/'' \<in> set ''cities/LA''" by simp
  have q: "path Map.empty (constructor ''projects/p/databases/d/documents/solo'') = Inr ''solo''"
    using path_of_parse [OF parse_solo] by simp
  have t: "CHR ''/'' \<notin> set ''solo''" by simp
  from path_decomposition [OF p] path_decomposition [OF q] p q s t show ?thesis
    by blast
qed

section \<open>One error message\<close>

text \<open>
  C10. Whichever of the four places in \<open>parse\<close> throws, and whichever getter was called,
  the error is the same: its message is
  \<open>Invalid document path. Path does not match pattern.\<close> A pathname that does not match
  and a match without a document path cannot be told apart.
\<close>

theorem failure_message_identical:
  "isl (get rel a this) \<Longrightarrow>
     get rel a this = Inl (Error ''Invalid document path. Path does not match pattern.'')"
proof -
  assume "isl (get rel a this)"
  then obtain e where e: "get rel a this = Inl e" by (cases "get rel a this") auto
  then have "parse rel this = Inl e" by (simp add: get_Inl_iff)
  then have "e = Error ''Invalid document path. Path does not match pattern.''"
    by (rule parse_Inl)
  with e show ?thesis by simp
qed

text \<open>
  C10 at a string that does not match, and at one that matches without a document path.
\<close>

theorem failure_message_identical_witness:
  "isl (get Map.empty Path (constructor ''not-a-valid-path'')) \<and>
   get Map.empty Path (constructor ''not-a-valid-path'')
     = Inl (Error ''Invalid document path. Path does not match pattern.'') \<and>
   isl (get Map.empty Id (constructor ''projects/p/databases/d/documents'')) \<and>
   get Map.empty Id (constructor ''projects/p/databases/d/documents'')
     = Inl (Error ''Invalid document path. Path does not match pattern.'')"
proof -
  have "parse Map.empty (constructor ''not-a-valid-path'')
          = Inl (Error ''Invalid document path. Path does not match pattern.'')"
    using pathname_not_a_valid_path match_not_a_valid_path by (rule parse_no_match)
  then have a: "isl (get Map.empty Path (constructor ''not-a-valid-path''))"
    by (simp only: get_parse_Inl sum.disc)
  have "group [(''project_id'', Some ''p''), (''database_id'', Some ''d''), (''document_path'', None)]
          ''document_path'' = None"
    by (simp add: group_def)
  with pathname_no_document_path match_no_document_path
  have "parse Map.empty (constructor ''projects/p/databases/d/documents'')
          = Inl (Error ''Invalid document path. Path does not match pattern.'')"
    by (rule parse_no_document_path)
  then have b: "isl (get Map.empty Id (constructor ''projects/p/databases/d/documents''))"
    by (simp only: get_parse_Inl sum.disc)
  from a b failure_message_identical [OF a] failure_message_identical [OF b]
  show ?thesis by blast
qed

end
